theory Spec2Isabelle
  imports Complex_Main "HOL-Library.Sublist" "HOL-Library.Multiset" "HOL-Library.Log_Nat"
begin

section \<open>Indian market briefing: a shallow embedding of the Python sources\<close>

text \<open>
  The development follows \<^verbatim>\<open>fix_portfolio.py\<close> (the symbol clean-up script) and
  \<^verbatim>\<open>india_briefing.py\<close> (portfolio loading, quote derivation, the performance
  calculation and the orchestrator \<^verbatim>\<open>run_briefing\<close>). Definitions come first, in the
  order of the sources; the theorems follow.
\<close>

subsection \<open>Numbers\<close>

text \<open>
  pandas and numpy compute on IEEE 754 doubles and never raise on a division by zero:
  the result is an infinity or NaN, and NaN doubles as the marker of a missing value.
  A number is a finite value, one of the two infinities, or NaN. The finite values
  that occur are doubles, and every operation returns the exact result rounded to the
  nearest double, ties to even, or an infinity when that overflows. The sign of a zero
  is not kept (a zero divisor is \<open>+0\<close>, which is what \<open>1 + (-1)\<close> yields).
\<close>

datatype num = Fin real | PInf | NInf | NaN

definition signed_inf :: "bool \<Rightarrow> num" where
  "signed_inf positive = (if positive then PInf else NInf)"

text \<open>The nearest integer, the even one of two that are equally near.\<close>

definition round_half_even :: "real \<Rightarrow> int" where
  "round_half_even r =
     (let lower = \<lfloor>r\<rfloor>; rest = r - of_int lower
      in if rest < 1 / 2 then lower
         else if 1 / 2 < rest then lower + 1
         else if even lower then lower else lower + 1)"

text \<open>
  The binary exponent of a magnitude \<open>a\<close>, that is \<open>k\<close> with \<open>2\<^sup>k \<le> a < 2\<^sup>k\<^sup>+\<^sup>1\<close>, but
  never below -1022, the exponent of the subnormal doubles. It is read off the
  bit length of \<open>a\<close> scaled to an integer.
\<close>

definition binade :: "real \<Rightarrow> int" where
  "binade a = max (bitlen \<lfloor>a * 2 ^ 1074\<rfloor> - 1075) (- 1022)"

text \<open>
  Rounding a real to a double: 53 significant bits at the exponent of its binade,
  and an infinity when the rounded magnitude reaches \<open>2\<^sup>1\<^sup>0\<^sup>2\<^sup>4\<close>.
\<close>

definition round_double :: "real \<Rightarrow> num" where
  "round_double x =
     (let a = \<bar>x\<bar>;
          e = binade a - 52;
          y = of_int (round_half_even (a / 2 powi e)) * 2 powi e
      in if 2 ^ 1024 \<le> y then signed_inf (0 < x) else Fin (if x < 0 then - y else y))"

fun fneg :: "num \<Rightarrow> num" where
  "fneg (Fin x) = Fin (- x)"
| "fneg PInf = NInf"
| "fneg NInf = PInf"
| "fneg NaN = NaN"

fun fadd :: "num \<Rightarrow> num \<Rightarrow> num" where
  "fadd NaN b = NaN"
| "fadd a NaN = NaN"
| "fadd (Fin x) (Fin y) = round_double (x + y)"
| "fadd PInf NInf = NaN"
| "fadd NInf PInf = NaN"
| "fadd PInf b = PInf"
| "fadd a PInf = PInf"
| "fadd NInf b = NInf"
| "fadd a NInf = NInf"

definition fsub :: "num \<Rightarrow> num \<Rightarrow> num" where
  "fsub a b = fadd a (fneg b)"

fun fmul :: "num \<Rightarrow> num \<Rightarrow> num" where
  "fmul NaN b = NaN"
| "fmul a NaN = NaN"
| "fmul (Fin x) (Fin y) = round_double (x * y)"
| "fmul (Fin x) PInf = (if x = 0 then NaN else signed_inf (0 < x))"
| "fmul (Fin x) NInf = (if x = 0 then NaN else signed_inf (x < 0))"
| "fmul PInf (Fin y) = (if y = 0 then NaN else signed_inf (0 < y))"
| "fmul NInf (Fin y) = (if y = 0 then NaN else signed_inf (y < 0))"
| "fmul PInf PInf = PInf"
| "fmul PInf NInf = NInf"
| "fmul NInf PInf = NInf"
| "fmul NInf NInf = PInf"

fun fdiv :: "num \<Rightarrow> num \<Rightarrow> num" where
  "fdiv NaN b = NaN"
| "fdiv a NaN = NaN"
| "fdiv (Fin x) (Fin y) =
     (if y = 0 then (if x = 0 then NaN else signed_inf (0 < x)) else round_double (x / y))"
| "fdiv (Fin x) PInf = Fin 0"
| "fdiv (Fin x) NInf = Fin 0"
| "fdiv PInf (Fin y) = signed_inf (0 \<le> y)"
| "fdiv NInf (Fin y) = signed_inf (y < 0)"
| "fdiv PInf PInf = NaN"
| "fdiv PInf NInf = NaN"
| "fdiv NInf PInf = NaN"
| "fdiv NInf NInf = NaN"

fun is_finite :: "num \<Rightarrow> bool" where
  "is_finite (Fin x) = True"
| "is_finite a = False"

subsection \<open>Strings\<close>

text \<open>
  \<^verbatim>\<open>s.replace(old, '')\<close>: Python scans \<open>s\<close> from the left and deletes every
  occurrence of \<open>old\<close> it meets, resuming after the deleted text; what a deletion
  brings together is not scanned again. With an empty \<open>old\<close> and an empty
  replacement the string is returned as it is.
\<close>

function str_replace_del :: "string \<Rightarrow> string \<Rightarrow> string" where
  "str_replace_del old [] = []"
| "str_replace_del old (c # cs) =
     (if old \<noteq> [] \<and> prefix old (c # cs)
      then str_replace_del old (drop (length old) (c # cs))
      else c # str_replace_del old cs)"
  by pat_completeness auto
termination
  by (relation "measure (\<lambda>(old, s). length s)") auto

text \<open>\<^verbatim>\<open>old in s\<close>: \<open>old\<close> occurs somewhere in \<open>s\<close>.\<close>

fun str_contains :: "string \<Rightarrow> string \<Rightarrow> bool" where
  "str_contains old [] = (old = [])"
| "str_contains old (c # cs) = (prefix old (c # cs) \<or> str_contains old cs)"

text \<open>\<^verbatim>\<open>s.endswith(suf)\<close>.\<close>

definition endswith :: "string \<Rightarrow> string \<Rightarrow> bool" where
  "endswith s suf = suffix suf s"

text \<open>
  What the specification calls stripping the market suffix: only a trailing
  \<open>suf\<close> is removed, once (Python's \<^verbatim>\<open>s.removesuffix(suf)\<close>). The sources never
  call it; it is the yardstick the replacement above is compared with.
\<close>

definition strip_trailing :: "string \<Rightarrow> string \<Rightarrow> string" where
  "strip_trailing suf s = (if suf \<noteq> [] \<and> endswith s suf then take (length s - length suf) s else s)"

subsection \<open>The portfolio table\<close>

text \<open>
  A row of \<^verbatim>\<open>india_portfolio.csv\<close> as pandas holds it: the \<open>Symbol\<close> and
  \<open>Quantity\<close> columns, and every other column of the file in \<open>Other\<close>.
  Symbols are strings, so \<^verbatim>\<open>str(x)\<close> returns its argument.
\<close>

record 'a position =
  Symbol :: string
  Quantity :: num
  Other :: 'a

datatype py_exception =
    FileNotFoundError
  | KeyError string
  | IndexError
  | PortfolioLoadFailed
  | ServiceError string

text \<open>
  The file on disk: \<open>None\<close> when \<^verbatim>\<open>pd.read_csv\<close> raises (no file, or nothing it can
  parse), and otherwise the table it parses, which has the two columns the
  specification requires of the portfolio file.
\<close>

type_synonym 'a csv_file = "'a position list option"

definition read_csv :: "'a csv_file \<Rightarrow> py_exception + 'a position list" where
  "read_csv file = (case file of None \<Rightarrow> Inl FileNotFoundError | Some df \<Rightarrow> Inr df)"

subsection \<open>\<^verbatim>\<open>fix_portfolio.py\<close>\<close>

text \<open>The dictionary literal \<^verbatim>\<open>symbol_map\<close>, entry by entry.\<close>

definition symbol_map_literal :: "(string \<times> string) list" where
  "symbol_map_literal =
    [(''MOTSU'', ''MOTHERSON''),
     (''MOTSUM'', ''MSUMI''),
     (''HYUMOT'', ''HYUNDAI''),
     (''TATMOT'', ''TATAMOTORS''),
     (''BANBAN'', ''BANDHANBNK''),
     (''BANMAH'', ''MAHABANK''),
     (''CANBAN'', ''CANBK''),
     (''HDFBAN'', ''HDFCBANK''),
     (''IDFBAN'', ''IDFCFIRSTB''),
     (''INDBA'', ''INDUSINDBK''),
     (''YESBAN'', ''YESBANK''),
     (''AMBCE'', ''AMBUJACEM''),
     (''AARIND'', ''AARTIIND''),
     (''UNIP'', ''UNIPARTS''),
     (''PATEN'', ''PATELENG''),
     (''ONE97'', ''PAYTM''),
     (''ICINIF'', ''ICICINIFTY''),
     (''ADAWIL'', ''AWL''),
     (''BHADYN'', ''BDL''),
     (''COMENG'', ''CUMMINSIND''),
     (''SUZENE'', ''SUZLON''),
     (''BAFINS'', ''BAJFINANCE''),
     (''CDSL'', ''CDSL''),
     (''JIOFIN'', ''JIOFIN''),
     (''LICHF'', ''LICHSGFIN''),
     (''MAHFIN'', ''M&MFIN''),
     (''HCLTEC'', ''HCLTECH''),
     (''TATTEC'', ''TATATECH''),
     (''ADAPOR'', ''ADANIPORTS''),
     (''GMRINF'', ''GMRAIRPORT''),
     (''ZEEENT'', ''ZEEL''),
     (''HINCOP'', ''HINDCOPPER''),
     (''ASIPAI'', ''ASIANPAINT''),
     (''ORIPAP'', ''ORIENTPPR''),
     (''BIOCON'', ''BIOCON''),
     (''JAIIRR'', ''JISLJALEQS''),
     (''BHAPET'', ''BPCL''),
     (''INDOIL'', ''IOC''),
     (''RELIND'', ''RELIANCE''),
     (''SCI'', ''SCI''),
     (''SAIL'', ''SAIL''),
     (''TATSTE'', ''TATASTEEL''),
     (''ADAENT'', ''ADANIENT''),
     (''GMRINFRA'', ''GMRAIRPORT''),
     (''GMRPOWER'', ''GMRPWR''),
     (''ICICINIFTY'', ''ICICINIFTY''),
     (''RELPOW'', ''RPOWER''),
     (''RELINF'', ''RELINFRA''),
     (''ALOIND'', ''ALOKINDS''),
     (''ZENTEC'', ''ZENTEC'')]"

text \<open>A dictionary literal is filled from left to right: a later entry of a key wins.\<close>

definition symbol_map :: "string \<rightharpoonup> string" where
  "symbol_map = map_of (rev symbol_map_literal)"

definition get_correct_symbol :: "string \<Rightarrow> string" where
  "get_correct_symbol symbl =
     (let clean_sym = str_replace_del ''.NS'' symbl
      in case symbol_map clean_sym of Some canonical \<Rightarrow> canonical | None \<Rightarrow> clean_sym)"

text \<open>
  \<^verbatim>\<open>fix_portfolio\<close> takes the file as it is on disk and returns the file as it leaves
  it. An exception of \<^verbatim>\<open>read_csv\<close> is caught and printed: nothing is written back.
\<close>

definition fix_portfolio :: "'a csv_file \<Rightarrow> 'a csv_file" where
  "fix_portfolio file =
     (case read_csv file of
        Inl e \<Rightarrow> file
      | Inr df \<Rightarrow> Some (map (\<lambda>row. row\<lparr>Symbol := get_correct_symbol (Symbol row)\<rparr>) df))"

subsection \<open>\<^verbatim>\<open>india_briefing.py\<close>: loading the portfolio\<close>

definition load_portfolio :: "'a csv_file \<Rightarrow> 'a position list option" where
  "load_portfolio file =
     (case read_csv file of
        Inl e \<Rightarrow> None
      | Inr df \<Rightarrow>
          Some (map (\<lambda>row. row\<lparr>Symbol := (if \<not> endswith (Symbol row) ''.NS''
                                              then Symbol row @ ''.NS'' else Symbol row)\<rparr>) df))"

text \<open>The search term of \<^verbatim>\<open>fetch_news\<close>: \<^verbatim>\<open>query.replace('.NS', '')\<close>.\<close>

definition search_term :: "string \<Rightarrow> string" where
  "search_term query = str_replace_del ''.NS'' query"

subsection \<open>pandas operations used by the briefing\<close>

text \<open>\<^verbatim>\<open>Series.dropna()\<close>: the observations that are not missing, in their order.\<close>

definition dropna :: "num list \<Rightarrow> num list" where
  "dropna xs = filter (\<lambda>v. v \<noteq> NaN) xs"

text \<open>
  \<^verbatim>\<open>Series.iloc[i]\<close>: a negative position counts from the end, and a position outside
  the series raises \<^verbatim>\<open>IndexError\<close>.
\<close>

definition iloc :: "'v list \<Rightarrow> int \<Rightarrow> py_exception + 'v" where
  "iloc xs i =
     (if 0 \<le> i \<and> i < int (length xs) then Inr (xs ! nat i)
      else if i < 0 \<and> - i \<le> int (length xs) then Inr (xs ! (length xs - nat (- i)))
      else Inl IndexError)"

text \<open>\<^verbatim>\<open>Series.map(d)\<close> with a dictionary: a key that \<open>d\<close> lacks maps to NaN.\<close>

definition series_map :: "(string \<rightharpoonup> num) \<Rightarrow> string \<Rightarrow> num" where
  "series_map d k = (case d k of Some v \<Rightarrow> v | None \<Rightarrow> NaN)"

text \<open>
  \<^verbatim>\<open>Series.sum()\<close> skips missing values (\<^verbatim>\<open>skipna=True\<close>) and is 0 on nothing. The
  values are added from first to last; numpy adds the values of a long column in
  another order, which can change the last bits of a sum.
\<close>

definition pd_sum :: "num list \<Rightarrow> num" where
  "pd_sum xs = foldl fadd (Fin 0) (dropna xs)"

text \<open>The order of the numbers that are not NaN.\<close>

fun num_le :: "num \<Rightarrow> num \<Rightarrow> bool" where
  "num_le NaN b = False"
| "num_le a NaN = False"
| "num_le NInf b = True"
| "num_le a PInf = True"
| "num_le (Fin x) (Fin y) = (x \<le> y)"
| "num_le a b = False"

text \<open>
  Ordering the rows of a table by a numeric column, as pandas documents
  \<^verbatim>\<open>sort_values\<close> with a stable sort: ascending or descending by the column's
  value, rows with equal values in their original order, and rows whose value is
  missing after all others. The stable sort is written as an insertion sort.
\<close>

fun insort_by :: "('r \<Rightarrow> 'r \<Rightarrow> bool) \<Rightarrow> 'r \<Rightarrow> 'r list \<Rightarrow> 'r list" where
  "insort_by precedes x [] = [x]"
| "insort_by precedes x (y # ys) =
     (if precedes x y then x # y # ys else y # insort_by precedes x ys)"

definition stable_sort_by :: "('r \<Rightarrow> 'r \<Rightarrow> bool) \<Rightarrow> 'r list \<Rightarrow> 'r list" where
  "stable_sort_by precedes xs = foldr (insort_by precedes) xs []"

definition sort_values :: "bool \<Rightarrow> ('r \<Rightarrow> num) \<Rightarrow> 'r list \<Rightarrow> 'r list" where
  "sort_values ascending col df =
     stable_sort_by
       (\<lambda>a b. if ascending then num_le (col a) (col b) else num_le (col b) (col a))
       (filter (\<lambda>r. col r \<noteq> NaN) df)
     @ filter (\<lambda>r. col r = NaN) df"

text \<open>
  \<^verbatim>\<open>DataFrame.nlargest(n, col)\<close> and \<^verbatim>\<open>DataFrame.nsmallest(n, col)\<close> with the default
  \<^verbatim>\<open>keep='first'\<close>: the first \<open>n\<close> rows of the table in descending (ascending)
  order of the column, the first occurrences winning among equal values.
\<close>

definition nlargest :: "nat \<Rightarrow> ('r \<Rightarrow> num) \<Rightarrow> 'r list \<Rightarrow> 'r list" where
  "nlargest n col df = take n (sort_values False col df)"

definition nsmallest :: "nat \<Rightarrow> ('r \<Rightarrow> num) \<Rightarrow> 'r list \<Rightarrow> 'r list" where
  "nsmallest n col df = take n (sort_values True col df)"

subsection \<open>\<^verbatim>\<open>fetch_market_data\<close>\<close>

text \<open>
  The price service is outside the program. \<^verbatim>\<open>yf.download(all_tickers, ...)['Close']\<close>
  either raises or returns a table; \<^verbatim>\<open>close_data[ticker]\<close> either raises (no such
  column) or is the ticker's series of closing prices, NaN where an observation is
  missing.
\<close>

type_synonym close_data = "string \<Rightarrow> py_exception + num list"

type_synonym price_service = "string list \<Rightarrow> py_exception + close_data"

text \<open>The body of the \<^verbatim>\<open>try\<close> block of the loop: the quote of one ticker, or the exception.\<close>

definition ticker_quote :: "close_data \<Rightarrow> string \<Rightarrow> py_exception + (num \<times> num)" where
  "ticker_quote close ticker =
     (case close ticker of
        Inl e \<Rightarrow> Inl e
      | Inr series \<Rightarrow>
          (let ticker_series = dropna series in
           if 2 \<le> length ticker_series then
             (case iloc ticker_series (- 1) of
                Inl e \<Rightarrow> Inl e
              | Inr current_price \<Rightarrow>
                  (case iloc ticker_series (- 2) of
                     Inl e \<Rightarrow> Inl e
                   | Inr prev_close \<Rightarrow>
                       Inr (current_price,
                            fmul (fdiv (fsub current_price prev_close) prev_close) (Fin 100))))
           else if length ticker_series = 1 then
             (case iloc ticker_series (- 1) of
                Inl e \<Rightarrow> Inl e
              | Inr current_price \<Rightarrow> Inr (current_price, Fin 0))
           else Inr (Fin 0, Fin 0)))"

text \<open>
  The loop over \<^verbatim>\<open>all_tickers\<close>, with the two dictionaries it fills as its state. The
  \<^verbatim>\<open>except\<close> branch stores the zero quote and the loop goes on.
\<close>

fun ticker_loop ::
  "close_data \<Rightarrow> string list \<Rightarrow> (string \<rightharpoonup> num) \<times> (string \<rightharpoonup> num)
     \<Rightarrow> (string \<rightharpoonup> num) \<times> (string \<rightharpoonup> num)" where
  "ticker_loop close [] (current_prices, percent_changes) = (current_prices, percent_changes)"
| "ticker_loop close (ticker # rest) (current_prices, percent_changes) =
     (case ticker_quote close ticker of
        Inr (current_price, change) \<Rightarrow>
          ticker_loop close rest
            (current_prices(ticker \<mapsto> current_price), percent_changes(ticker \<mapsto> change))
      | Inl e \<Rightarrow>
          ticker_loop close rest
            (current_prices(ticker \<mapsto> Fin 0), percent_changes(ticker \<mapsto> Fin 0)))"

definition all_tickers :: "'a position list \<Rightarrow> string list" where
  "all_tickers df = map Symbol df @ [''^NSEI'', ''^BSESN'']"

definition fetch_market_data ::
  "price_service \<Rightarrow> 'a position list
     \<Rightarrow> py_exception + ((string \<rightharpoonup> num) \<times> (string \<rightharpoonup> num))" where
  "fetch_market_data download df =
     (case download (all_tickers df) of
        Inl e \<Rightarrow> Inl e
      | Inr close \<Rightarrow> Inr (ticker_loop close (all_tickers df) (Map.empty, Map.empty)))"

subsection \<open>\<^verbatim>\<open>calculate_performance\<close>\<close>

record 'a perf_row = "'a position" +
  CurrentPrice :: num
  ChangePct :: num
  CurrentValue :: num
  DailyPnL :: num

text \<open>The divisor of the daily P&L: \<^verbatim>\<open>1 + df['ChangePct']/100\<close>.\<close>

definition pnl_divisor :: "num \<Rightarrow> num" where
  "pnl_divisor change = fadd (Fin 1) (fdiv change (Fin 100))"

text \<open>
  The four column assignments, row by row (pandas computes them element by element):
  \<^verbatim>\<open>CurrentPrice\<close> and \<^verbatim>\<open>ChangePct\<close> by \<^verbatim>\<open>Symbol.map\<close>, then \<^verbatim>\<open>CurrentValue\<close> and
  \<^verbatim>\<open>DailyPnL\<close>.
\<close>

definition add_columns ::
  "(string \<rightharpoonup> num) \<Rightarrow> (string \<rightharpoonup> num) \<Rightarrow> 'a position \<Rightarrow> 'a perf_row" where
  "add_columns current_prices percent_changes row =
     (let price = series_map current_prices (Symbol row);
          change = series_map percent_changes (Symbol row);
          current_value = fmul (Quantity row) price;
          daily_pnl = fsub current_value (fdiv current_value (pnl_divisor change))
      in \<lparr>Symbol = Symbol row, Quantity = Quantity row, Other = Other row,
          CurrentPrice = price, ChangePct = change,
          CurrentValue = current_value, DailyPnL = daily_pnl\<rparr>)"

text \<open>The projection \<^verbatim>\<open>[['Symbol', 'ChangePct', 'CurrentPrice']]\<close> of a row.\<close>

definition mover :: "'a perf_row \<Rightarrow> string \<times> num \<times> num" where
  "mover row = (Symbol row, ChangePct row, CurrentPrice row)"

record 'a performance =
  total_value :: num
  total_daily_pnl :: num
  top_gainers :: "(string \<times> num \<times> num) list"
  top_losers :: "(string \<times> num \<times> num) list"
  full_df :: "'a perf_row list"

definition calculate_performance ::
  "'a position list \<Rightarrow> (string \<rightharpoonup> num) \<Rightarrow> (string \<rightharpoonup> num) \<Rightarrow> 'a performance" where
  "calculate_performance df current_prices percent_changes =
     (let full = map (add_columns current_prices percent_changes) df
      in \<lparr>total_value = pd_sum (map CurrentValue full),
          total_daily_pnl = pd_sum (map DailyPnL full),
          top_gainers = map mover (nlargest 3 ChangePct full),
          top_losers = map mover (nsmallest 3 ChangePct full),
          full_df = full\<rparr>)"

subsection \<open>\<^verbatim>\<open>fetch_news\<close>, \<^verbatim>\<open>generate_analysis\<close> and the orchestrator\<close>

text \<open>
  What a run does to the outside is recorded as a trace: the stages it enters and the
  requests it sends to the four external services (\<^verbatim>\<open>yf.download\<close>,
  \<^verbatim>\<open>feedparser.parse\<close>, \<^verbatim>\<open>model.generate_content\<close> and \<^verbatim>\<open>requests.post\<close>).
\<close>

datatype stage =
    LoadPortfolio
  | FetchMarketData
  | CalculatePerformance
  | FetchNews
  | GenerateAnalysis
  | SendTelegramReport
  | SendErrorAlert

datatype service = PriceService | NewsService | GenerativeService | ChatService

datatype event = Stage stage | Request service

type_synonym news_service = "string \<Rightarrow> py_exception + (string \<times> string) list"

type_synonym news_items = "(string \<times> (string \<times> string) list) list"

text \<open>
  \<^verbatim>\<open>fetch_news\<close>: one feed request per query, for the cleaned search term followed by
  \<^verbatim>\<open>India Business\<close>; the first two entries are kept as (title, link), and a query
  with no entry is left out. Nothing catches an exception of the feed request.
\<close>

fun fetch_news :: "news_service \<Rightarrow> string list \<Rightarrow> (py_exception + news_items) \<times> event list" where
  "fetch_news feed [] = (Inr [], [])"
| "fetch_news feed (query # rest) =
     (case feed (search_term query @ '' India Business'') of
        Inl e \<Rightarrow> (Inl e, [Request NewsService])
      | Inr entries \<Rightarrow>
          (let items = take 2 entries in
           case fetch_news feed rest of
             (Inl e, events) \<Rightarrow> (Inl e, Request NewsService # events)
           | (Inr news, events) \<Rightarrow>
               (Inr (if items \<noteq> [] then (query, items) # news else news),
                Request NewsService # events)))"

text \<open>
  The prompt is assembled from the performance data, the two index quotes and the news;
  its wording is not modelled. An exception of the generative service is caught and
  becomes the text of the report.
\<close>

type_synonym 'a prompt = "'a performance \<times> (num \<times> num) \<times> (num \<times> num) \<times> news_items"

datatype report = Analysis string | AnalysisError py_exception

definition generate_analysis ::
  "('a prompt \<Rightarrow> py_exception + string) \<Rightarrow> 'a prompt \<Rightarrow> report" where
  "generate_analysis generate_content prompt =
     (case generate_content prompt of
        Inr response \<Rightarrow> Analysis response
      | Inl e \<Rightarrow> AnalysisError e)"

text \<open>
  The world a run meets: the day of the week that \<^verbatim>\<open>datetime.now().weekday()\<close>
  returns (Monday is 0, Saturday 5, Sunday 6), the portfolio file, and the four services.
\<close>

record 'a world =
  weekday :: nat
  portfolio_csv :: "'a csv_file"
  yf_download :: price_service
  news_feed :: news_service
  generate_content :: "'a prompt \<Rightarrow> py_exception + string"
  telegram_post :: "report \<Rightarrow> py_exception + nat"

datatype outcome = Skip | Success | Failed py_exception

text \<open>\<^verbatim>\<open>d.get(key, 0)\<close>.\<close>

definition get_or_zero :: "(string \<rightharpoonup> num) \<Rightarrow> string \<Rightarrow> num" where
  "get_or_zero d k = (case d k of Some v \<Rightarrow> v | None \<Rightarrow> Fin 0)"

text \<open>
  The body of the \<^verbatim>\<open>try\<close> block of \<^verbatim>\<open>run_briefing\<close>, steps 2 to 8: its result is the
  exception that leaves it, if any, and the trace up to there. The queries are
  \<^verbatim>\<open>list(set(["NIFTY 50"] + movers))\<close>: each once, in an order Python does not fix.
\<close>

definition pipeline :: "'a world \<Rightarrow> (py_exception + unit) \<times> event list" where
  "pipeline w =
     (case load_portfolio (portfolio_csv w) of
        None \<Rightarrow> (Inl PortfolioLoadFailed, [Stage LoadPortfolio])
      | Some df \<Rightarrow>
          (case fetch_market_data (yf_download w) df of
             Inl e \<Rightarrow>
               (Inl e, [Stage LoadPortfolio, Stage FetchMarketData, Request PriceService])
           | Inr (current_prices, percent_changes) \<Rightarrow>
               (let perf = calculate_performance df current_prices percent_changes;
                    nifty = (get_or_zero current_prices ''^NSEI'',
                             get_or_zero percent_changes ''^NSEI'');
                    sensex = (get_or_zero current_prices ''^BSESN'',
                              get_or_zero percent_changes ''^BSESN'');
                    movers = map fst (top_gainers perf) @ map fst (top_losers perf);
                    search_queries = remdups (''NIFTY 50'' # movers);
                    before_news = [Stage LoadPortfolio, Stage FetchMarketData,
                                   Request PriceService, Stage CalculatePerformance,
                                   Stage FetchNews]
                in case fetch_news (news_feed w) search_queries of
                     (Inl e, requests) \<Rightarrow> (Inl e, before_news @ requests)
                   | (Inr news, requests) \<Rightarrow>
                       (let report = generate_analysis (generate_content w)
                                       (perf, nifty, sensex, news);
                            events = before_news @ requests
                                     @ [Stage GenerateAnalysis, Request GenerativeService,
                                        Stage SendTelegramReport, Request ChatService]
                        in case telegram_post w report of
                             Inl e \<Rightarrow> (Inl e, events)
                           | Inr status \<Rightarrow> (Inr (), events)))))"

text \<open>
  \<^verbatim>\<open>run_briefing\<close>: the weekend guard returns before the \<^verbatim>\<open>try\<close> block; an exception
  of the block is caught and sent as an alert, whose own failure is swallowed.
\<close>

definition run_briefing :: "'a world \<Rightarrow> outcome \<times> event list" where
  "run_briefing w =
     (let today = weekday w in
      if 5 \<le> today then (Skip, [])
      else
        (case pipeline w of
           (Inr finished, events) \<Rightarrow> (Success, events)
         | (Inl e, events) \<Rightarrow>
             (Failed e, events @ [Stage SendErrorAlert, Request ChatService])))"

text \<open>
  A world for examples: one position, two observations of every ticker, and services
  that answer. Only the day of the week is left open.
\<close>

definition example_world :: "nat \<Rightarrow> unit world" where
  "example_world day =
     \<lparr>weekday = day,
      portfolio_csv = Some [\<lparr>Symbol = ''AAA'', Quantity = Fin 10, Other = ()\<rparr>],
      yf_download = (\<lambda>tickers. Inr (\<lambda>ticker. Inr [Fin 100, Fin 110])),
      news_feed = (\<lambda>query. Inr [(''headline'', ''link'')]),
      generate_content = (\<lambda>prompt. Inr ''pulse''),
      telegram_post = (\<lambda>report. Inr 200)\<rparr>"

section \<open>Theorems\<close>

subsection \<open>Rounding to doubles\<close>

lemma scale_powi: "k \<ge> - 1074 \<Longrightarrow> (2::real) ^ nat (k + 1074) = 2 powi k * 2 ^ 1074"
proof -
  assume "k \<ge> - 1074"
  then have "(2::real) ^ nat (k + 1074) = 2 powi (k + 1074)"
    by (simp add: power_int_def)
  also have "\<dots> = 2 powi k * 2 powi 1074"
    by (simp add: power_int_add)
  finally show ?thesis by simp
qed

lemma scaled_le: "k \<ge> - 1074 \<Longrightarrow> (2 powi k \<le> a) = ((2::real) ^ nat (k + 1074) \<le> a * 2 ^ 1074)"
  by (simp add: scale_powi)

lemma scaled_less: "k \<ge> - 1074 \<Longrightarrow> (a < 2 powi k) = (a * 2 ^ 1074 < (2::real) ^ nat (k + 1074))"
  by (simp add: scale_powi)

lemma floor_pow2_le: "((2::real) ^ n \<le> s) = ((2::int) ^ n \<le> \<lfloor>s\<rfloor>)"
proof -
  have "((2::int) ^ n \<le> \<lfloor>s\<rfloor>) = (of_int ((2::int) ^ n) \<le> s)"
    by (rule le_floor_iff)
  then show ?thesis by simp
qed

lemma floor_pow2_less: "(s < (2::real) ^ n) = (\<lfloor>s\<rfloor> < (2::int) ^ n)"
  using floor_pow2_le [of n s] by auto

lemma binade_ge: "- 1022 \<le> binade a"
  by (simp add: binade_def)

lemma binade_eq:
  assumes "2 powi k \<le> a" and "a < 2 powi (k + 1)" and "- 1022 \<le> k"
  shows "binade a = k"
proof -
  let ?n = "\<lfloor>a * 2 ^ 1074\<rfloor>"
  have lo: "2 ^ nat (k + 1074) \<le> ?n"
    using assms(1,3) by (simp add: scaled_le floor_pow2_le)
  have hi: "?n < 2 ^ nat (k + 1 + 1074)"
    using assms(2,3) by (simp add: scaled_less floor_pow2_less)
  have pos: "0 < ?n"
    using lo by (smt (verit) zero_less_power)
  have "bitlen ?n = k + 1075"
  proof -
    from bitlen_bounds [OF pos]
    have b1: "2 ^ nat (bitlen ?n - 1) \<le> ?n" and b2: "?n < 2 ^ nat (bitlen ?n)"
      by simp_all
    have "(2::int) ^ nat (k + 1074) < 2 ^ nat (bitlen ?n)"
      using lo b2 by linarith
    then have "nat (k + 1074) < nat (bitlen ?n)"
      by (rule power_less_imp_less_exp [where a = "2::int", rotated]) simp
    moreover have "(2::int) ^ nat (bitlen ?n - 1) < 2 ^ nat (k + 1 + 1074)"
      using hi b1 by linarith
    then have "nat (bitlen ?n - 1) < nat (k + 1 + 1074)"
      by (rule power_less_imp_less_exp [where a = "2::int", rotated]) simp
    ultimately show ?thesis
      using assms(3) by linarith
  qed
  then show ?thesis
    using assms(3) by (simp add: binade_def)
qed

lemma binade_subnormal:
  assumes "0 \<le> a" and "a < 2 powi (- 1022)"
  shows "binade a = - 1022"
proof -
  let ?n = "\<lfloor>a * 2 ^ 1074\<rfloor>"
  have c: "(- 1074::int) \<le> - 1022"
    by simp
  have hi: "?n < 2 ^ nat (- 1022 + 1074)"
    using assms(2) by (simp only: scaled_less [OF c] floor_pow2_less)
  have "bitlen ?n \<le> 52"
  proof (cases "0 < ?n")
    case True
    from bitlen_bounds [OF True] have "2 ^ nat (bitlen ?n - 1) \<le> ?n"
      by simp
    with hi have "(2::int) ^ nat (bitlen ?n - 1) < 2 ^ nat (- 1022 + 1074)"
      by linarith
    then have "nat (bitlen ?n - 1) < nat (- 1022 + 1074)"
      by (rule power_less_imp_less_exp [where a = "2::int", rotated]) simp
    then show ?thesis by linarith
  next
    case False
    then have "bitlen ?n = 0"
      by (simp add: bitlen_eq_zero_iff)
    then show ?thesis by simp
  qed
  then show ?thesis
    by (simp add: binade_def)
qed

text \<open>Every non-negative real lies in the binade found for it.\<close>

lemma binade_cases:
  assumes "0 \<le> a"
  shows "a < 2 powi (binade a + 1) \<and> (binade a = - 1022 \<or> 2 powi (binade a) \<le> a)"
proof (cases "a < 2 powi (- 1022)")
  case True
  then have b: "binade a = - 1022"
    using assms by (rule binade_subnormal [rotated])
  have "(2::real) powi (- 1022) \<le> 2 powi (- 1022 + 1)"
    by (intro power_int_increasing) simp_all
  then show ?thesis
    using True b by simp
next
  case False
  let ?n = "\<lfloor>a * 2 ^ 1074\<rfloor>"
  have c: "(- 1074::int) \<le> - 1022"
    by simp
  have "2 powi (- 1022) \<le> a"
    using False by simp
  then have lo: "2 ^ nat (- 1022 + 1074) \<le> ?n"
    by (simp only: scaled_le [OF c] floor_pow2_le)
  then have pos: "0 < ?n"
    by (smt (verit) zero_less_power)
  define k where "k = bitlen ?n - 1075"
  from bitlen_bounds [OF pos]
  have b1: "2 ^ nat (bitlen ?n - 1) \<le> ?n" and b2: "?n < 2 ^ nat (bitlen ?n)"
    by simp_all
  have "(2::int) ^ nat (- 1022 + 1074) < 2 ^ nat (bitlen ?n)"
    using lo b2 by linarith
  then have "nat (- 1022 + 1074) < nat (bitlen ?n)"
    by (rule power_less_imp_less_exp [where a = "2::int", rotated]) simp
  then have k: "- 1022 \<le> k"
    unfolding k_def by linarith
  have e1: "nat (k + 1074) = nat (bitlen ?n - 1)" and e2: "nat (k + 1 + 1074) = nat (bitlen ?n)"
    unfolding k_def by simp_all
  have "2 powi k \<le> a"
    using b1 k by (simp only: scaled_le floor_pow2_le e1)
  moreover have k1: "- 1074 \<le> k + 1"
    using k by simp
  have "a < 2 powi (k + 1)"
    using b2 by (simp only: scaled_less [OF k1] floor_pow2_less e2)
  ultimately have "binade a = k"
    using k by (rule binade_eq)
  then show ?thesis
    using \<open>2 powi k \<le> a\<close> \<open>a < 2 powi (k + 1)\<close> by simp
qed

lemma round_half_even_int: "round_half_even (of_int n) = n"
  by (simp add: round_half_even_def)

lemma round_half_even_nonneg: "0 \<le> r \<Longrightarrow> 0 \<le> round_half_even r"
  by (simp add: round_half_even_def Let_def)

lemma round_half_even_le: "r < of_int n \<Longrightarrow> round_half_even r \<le> n"
proof -
  assume "r < of_int n"
  then have "\<lfloor>r\<rfloor> < n"
    by (simp add: floor_less_iff)
  then show ?thesis
    by (simp add: round_half_even_def Let_def)
qed

lemma round_double_in_binade:
  assumes "2 powi k \<le> \<bar>x\<bar>" and "\<bar>x\<bar> < 2 powi (k + 1)" and "- 1022 \<le> k"
  shows "round_double x =
     (let y = of_int (round_half_even (\<bar>x\<bar> / 2 powi (k - 52))) * 2 powi (k - 52)
      in if 2 ^ 1024 \<le> y then signed_inf (0 < x) else Fin (if x < 0 then - y else y))"
  by (simp only: round_double_def Let_def binade_eq [OF assms])

lemma powi2_less_cancel: "(2::real) powi b < 2 powi c \<Longrightarrow> b < c"
proof (rule ccontr)
  assume less: "(2::real) powi b < 2 powi c" and "\<not> b < c"
  then have "(2::real) powi c \<le> 2 powi b"
    by (intro power_int_increasing) simp_all
  with less show False by simp
qed

lemma round_double_representable:
  assumes x: "x = of_int m * 2 powi e"
    and m: "\<bar>m\<bar> < 2 ^ 53" and e: "- 1074 \<le> e" and fin: "\<bar>x\<bar> < 2 ^ 1024"
  shows "round_double x = Fin x"
proof -
  define a where "a = \<bar>x\<bar>"
  define E where "E = binade a - 52"
  have a: "a = of_int \<bar>m\<bar> * 2 powi e"
    unfolding a_def x by (simp add: abs_mult)
  have a_ge: "0 \<le> a"
    by (simp add: a_def)
  have E_le: "E \<le> e"
  proof (cases "binade a = - 1022")
    case True
    then show ?thesis using e by (simp add: E_def)
  next
    case False
    then have "2 powi (binade a) \<le> a"
      using binade_cases [OF a_ge] by simp
    also have "a < 2 ^ 53 * 2 powi e"
    proof -
      have "(of_int \<bar>m\<bar> :: real) < 2 ^ 53"
        using m by (metis of_int_less_numeral_power_cancel_iff)
      then show ?thesis
        unfolding a by (intro mult_strict_right_mono) simp_all
    qed
    also have "\<dots> = 2 powi (53 + e)"
      by (simp add: power_int_add)
    finally have "binade a < 53 + e"
      by (rule powi2_less_cancel)
    then show ?thesis by (simp add: E_def)
  qed
  define d where "d = nat (e - E)"
  have split: "(2::real) powi e = 2 ^ d * 2 powi E"
  proof -
    have "(2::real) powi e = 2 powi (int d + E)"
      using E_le by (simp add: d_def)
    also have "\<dots> = 2 powi (int d) * 2 powi E"
      by (rule power_int_add) simp
    finally show ?thesis by simp
  qed
  have q: "a / 2 powi E = of_int (\<bar>m\<bar> * 2 ^ d)"
    by (simp add: a split)
  have "of_int (round_half_even (a / 2 powi E)) * 2 powi E = of_int (\<bar>m\<bar> * 2 ^ d) * 2 powi E"
    by (simp only: q round_half_even_int)
  also have "\<dots> = a"
    by (simp add: a split)
  finally have y: "of_int (round_half_even (a / 2 powi E)) * 2 powi E = a" .
  have "round_double x = (if 2 ^ 1024 \<le> a then signed_inf (0 < x) else Fin (if x < 0 then - a else a))"
    by (simp only: round_double_def Let_def a_def [symmetric] E_def [symmetric] y)
  then show ?thesis
    using fin by (auto simp: a_def)
qed

lemma round_double_int:
  "\<bar>m\<bar> < 2 ^ 53 \<Longrightarrow> round_double (of_int m) = Fin (of_int m)"
proof -
  assume m: "\<bar>m\<bar> < 2 ^ 53"
  have "\<bar>real_of_int m\<bar> < 2 ^ 53"
    using m by (metis of_int_abs of_int_less_numeral_power_cancel_iff)
  also have "(2::real) ^ 53 < 2 ^ 1024"
    by simp
  finally show ?thesis
    using round_double_representable [of "of_int m" m 0] m by simp
qed

lemma round_double_range:
  assumes "round_double x = Fin v"
  shows "\<exists>m e. v = of_int m * 2 powi e \<and> \<bar>m\<bar> < 2 ^ 53 \<and> - 1074 \<le> e \<and> \<bar>v\<bar> < 2 ^ 1024"
proof -
  let ?a = "\<bar>x\<bar>"
  define E where "E = binade ?a - 52"
  define n where "n = round_half_even (?a / 2 powi E)"
  define y :: real where "y = of_int n * 2 powi E"
  have unfolded: "round_double x = (if 2 ^ 1024 \<le> y then signed_inf (0 < x) else Fin (if x < 0 then - y else y))"
    by (simp add: round_double_def Let_def y_def n_def E_def)
  have small: "y < 2 ^ 1024"
    using assms unfolded by (auto simp: signed_inf_def split: if_splits)
  have v: "v = (if x < 0 then - y else y)"
    using assms unfolded small by simp
  have E: "- 1074 \<le> E"
    using binade_ge [of ?a] by (simp add: E_def)
  have "?a < 2 powi (binade ?a + 1)"
    using binade_cases [of ?a] by simp
  also have "\<dots> = 2 ^ 53 * 2 powi E"
  proof -
    have "binade ?a + 1 = 53 + E" by (simp add: E_def)
    then show ?thesis by (simp add: power_int_add)
  qed
  finally have "?a / 2 powi E < 2 ^ 53"
    by (simp add: field_simps)
  then have "?a / 2 powi E < of_int (2 ^ 53)"
    by simp
  then have n_le: "n \<le> 2 ^ 53"
    unfolding n_def by (rule round_half_even_le)
  have n_ge: "0 \<le> n"
    unfolding n_def by (intro round_half_even_nonneg) simp
  then have y_ge: "0 \<le> y"
    by (simp add: y_def)
  then have absv: "\<bar>v\<bar> < 2 ^ 1024"
    using v small by auto
  show ?thesis
  proof (cases "n = 2 ^ 53")
    case False
    with n_le n_ge have "\<bar>n\<bar> < 2 ^ 53" by simp
    then have "\<bar>if x < 0 then - n else n\<bar> < 2 ^ 53" by simp
    moreover have "v = of_int (if x < 0 then - n else n) * 2 powi E"
      using v by (simp add: y_def)
    ultimately show ?thesis
      using E absv by blast
  next
    case True
    have "y = of_int (2 ^ 52) * 2 powi (E + 1)"
      unfolding y_def True by (simp add: power_int_add)
    then have "v = of_int (if x < 0 then - (2 ^ 52) else 2 ^ 52) * 2 powi (E + 1)"
      using v by simp
    moreover have "\<bar>if x < 0 then - (2 ^ 52) else (2 ^ 52 :: int)\<bar> < 2 ^ 53"
      by simp
    moreover have "- 1074 \<le> E + 1"
      using E by simp
    ultimately show ?thesis
      using absv by blast
  qed
qed

lemma round_double_idem: "round_double x = Fin v \<Longrightarrow> round_double v = Fin v"
  using round_double_range [of x v] round_double_representable by blast

lemma round_double_0: "round_double 0 = Fin 0"
  using round_double_int [of 0] by simp

lemma round_double_1: "round_double 1 = Fin 1"
  using round_double_int [of 1] by simp

lemma round_double_minus_1: "round_double (- 1) = Fin (- 1)"
  using round_double_int [of "- 1"] by simp

lemma round_double_numeral:
  "numeral n < (2::int) ^ 53 \<Longrightarrow> round_double (numeral n) = Fin (numeral n)"
  using round_double_int [of "numeral n"] by simp

lemma round_double_neg_numeral:
  "numeral n < (2::int) ^ 53 \<Longrightarrow> round_double (- numeral n) = Fin (- numeral n)"
  using round_double_int [of "- numeral n"] by simp

lemmas round_double_ints =
  round_double_0 round_double_1 round_double_minus_1 round_double_numeral round_double_neg_numeral

subsection \<open>Deleting \<open>.NS\<close>\<close>

lemma replace_no_occurrence: "\<not> str_contains old s \<Longrightarrow> str_replace_del old s = s"
  by (induction old s rule: str_replace_del.induct) auto

lemma replace_length_le: "length (str_replace_del old s) \<le> length s"
  by (induction old s rule: str_replace_del.induct) auto

lemma replace_shrinks:
  "old \<noteq> [] \<Longrightarrow> str_contains old s \<Longrightarrow> length (str_replace_del old s) < length s"
proof (induction old s rule: str_replace_del.induct)
  case (1 old)
  then show ?case by simp
next
  case (2 old c cs)
  show ?case
  proof (cases "prefix old (c # cs)")
    case True
    have "length (str_replace_del old (drop (length old) (c # cs)))
            \<le> length (drop (length old) (c # cs))"
      by (rule replace_length_le)
    also have "\<dots> < length (c # cs)"
      using 2(3) by (cases old) auto
    finally show ?thesis
      using True 2(3) by simp
  next
    case False
    then show ?thesis
      using 2 by auto
  qed
qed

lemma replace_NS_hit: "str_replace_del ''.NS'' (''.NS'' @ r) = str_replace_del ''.NS'' r"
  by simp

lemma replace_NS_miss:
  assumes "\<not> prefix ''.NS'' (c # cs)"
  shows "str_replace_del ''.NS'' (c # cs) = c # str_replace_del ''.NS'' cs"
  by (subst str_replace_del.simps(2)) (simp only: assms simp_thms if_False)

text \<open>\<open>.NS\<close> has no border: an occurrence cannot straddle the end of what precedes one.\<close>

lemma no_border_NS:
  assumes "\<not> prefix ''.NS'' (c # cs)"
  shows "\<not> prefix ''.NS'' (c # cs @ ''.NS'' @ b)"
proof (cases cs)
  case Nil
  then show ?thesis by simp
next
  case (Cons d ds)
  then show ?thesis
    using assms by (cases ds) auto
qed

lemma replace_NS_append:
  "str_replace_del ''.NS'' (a @ ''.NS'' @ b) = str_replace_del ''.NS'' a @ str_replace_del ''.NS'' b"
proof (induction a rule: length_induct)
  case (1 a)
  show ?case
  proof (cases a)
    case Nil
    then show ?thesis
      using replace_NS_hit [of b] by simp
  next
    case (Cons c cs)
    show ?thesis
    proof (cases "prefix ''.NS'' (c # cs)")
      case True
      then obtain r where r: "a = ''.NS'' @ r"
        using Cons by (auto simp: prefix_def)
      then have "length r < length a"
        by simp
      with 1 have "str_replace_del ''.NS'' (r @ ''.NS'' @ b)
                     = str_replace_del ''.NS'' r @ str_replace_del ''.NS'' b"
        by blast
      then show ?thesis
        using replace_NS_hit [of "r @ ''.NS'' @ b"] replace_NS_hit [of r] r by simp
    next
      case False
      have "length cs < length a"
        using Cons by simp
      with 1 have ih: "str_replace_del ''.NS'' (cs @ ''.NS'' @ b)
                         = str_replace_del ''.NS'' cs @ str_replace_del ''.NS'' b"
        by blast
      have "str_replace_del ''.NS'' (c # (cs @ ''.NS'' @ b))
              = c # str_replace_del ''.NS'' (cs @ ''.NS'' @ b)"
        using no_border_NS [OF False, of b] by (intro replace_NS_miss) simp
      then show ?thesis
        using ih replace_NS_miss [OF False] Cons by simp
    qed
  qed
qed

text \<open>
  C10. The normaliser deletes \<open>.NS\<close> wherever it stands in the raw symbol, not only
  at its end: \<open>A.NSB\<close> becomes \<open>AB\<close>, where removing a trailing \<open>.NS\<close> would leave
  it as it is; the search term of the news fetcher is cleaned the same way; and in
  general an occurrence between any two texts is deleted.
\<close>

theorem replace_NS_anywhere:
  "get_correct_symbol ''A.NSB'' = ''AB''
   \<and> strip_trailing ''.NS'' ''A.NSB'' = ''A.NSB''
   \<and> search_term ''A.NSB'' = ''AB''
   \<and> (\<forall>a b. str_replace_del ''.NS'' (a @ ''.NS'' @ b)
               = str_replace_del ''.NS'' a @ str_replace_del ''.NS'' b)"
proof -
  have "get_correct_symbol ''A.NSB'' = ''AB''"
    by code_simp
  moreover have "strip_trailing ''.NS'' ''A.NSB'' = ''A.NSB''"
    by code_simp
  moreover have "search_term ''A.NSB'' = ''AB''"
    by code_simp
  ultimately show ?thesis
    using replace_NS_append by blast
qed

subsection \<open>The symbol table and idempotence\<close>

text \<open>
  Every entry of the table, checked by evaluation: neither its key nor its value
  contains \<open>.NS\<close>, and its value is either no key or a key mapped to itself.
\<close>

lemma symbol_map_values_checked:
  "list_all (\<lambda>(k, v). \<not> str_contains ''.NS'' k \<and> \<not> str_contains ''.NS'' v \<and>
      (case symbol_map v of None \<Rightarrow> True | Some w \<Rightarrow> w = v)) symbol_map_literal"
  by code_simp

lemma symbol_map_entry:
  assumes "symbol_map k = Some v"
  shows "\<not> str_contains ''.NS'' k"
    and "\<not> str_contains ''.NS'' v"
    and "symbol_map v = None \<or> symbol_map v = Some v"
proof -
  from assms have "(k, v) \<in> set symbol_map_literal"
    unfolding symbol_map_def by (auto dest: map_of_SomeD)
  with symbol_map_values_checked
  have *: "\<not> str_contains ''.NS'' k \<and> \<not> str_contains ''.NS'' v \<and>
      (case symbol_map v of None \<Rightarrow> True | Some w \<Rightarrow> w = v)"
    unfolding list_all_iff by blast
  then show "\<not> str_contains ''.NS'' k" and "\<not> str_contains ''.NS'' v"
    by simp_all
  from * show "symbol_map v = None \<or> symbol_map v = Some v"
    by (cases "symbol_map v") simp_all
qed

lemma get_correct_symbol_canonical:
  assumes "symbol_map k = Some v"
  shows "get_correct_symbol v = v"
proof -
  have "str_replace_del ''.NS'' v = v"
    using symbol_map_entry(2) [OF assms] by (rule replace_no_occurrence)
  then show ?thesis
    using symbol_map_entry(3) [OF assms] by (auto simp: get_correct_symbol_def)
qed

text \<open>
  C7, as the claim states it, fails: deleting the occurrence in \<open>..NSNS\<close> brings a new
  \<open>.NS\<close> together, which only a second normalisation deletes.
\<close>

theorem normalize_not_idempotent:
  "get_correct_symbol (get_correct_symbol ''..NSNS'') \<noteq> get_correct_symbol ''..NSNS''"
  by code_simp

text \<open>
  C7, amended. Normalising twice gives the same as normalising once exactly for the
  inputs whose stripped form contains no further \<open>.NS\<close>; the table itself never
  stands in the way (a value is never a key that maps elsewhere).
\<close>

theorem normalize_idempotent_iff:
  "get_correct_symbol (get_correct_symbol x) = get_correct_symbol x
     \<longleftrightarrow> \<not> str_contains ''.NS'' (str_replace_del ''.NS'' x)"
proof (cases "symbol_map (str_replace_del ''.NS'' x)")
  case (Some v)
  then have "get_correct_symbol x = v"
    by (simp add: get_correct_symbol_def)
  then show ?thesis
    using get_correct_symbol_canonical [OF Some] symbol_map_entry(1) [OF Some] by simp
next
  case None
  let ?y = "str_replace_del ''.NS'' x"
  have gx: "get_correct_symbol x = ?y"
    using None by (simp add: get_correct_symbol_def)
  show ?thesis
  proof (cases "str_contains ''.NS'' ?y")
    case False
    then have "str_replace_del ''.NS'' ?y = ?y"
      by (rule replace_no_occurrence)
    then have "get_correct_symbol ?y = ?y"
      using None by (simp add: get_correct_symbol_def)
    then show ?thesis
      using gx False by simp
  next
    case True
    let ?z = "str_replace_del ''.NS'' ?y"
    have shorter: "length ?z < length ?y"
      using True by (intro replace_shrinks) simp_all
    have "get_correct_symbol ?y \<noteq> ?y"
    proof (cases "symbol_map ?z")
      case None
      then have "get_correct_symbol ?y = ?z"
        by (simp add: get_correct_symbol_def)
      then show ?thesis
        using shorter by auto
    next
      case (Some w)
      then have "get_correct_symbol ?y = w"
        by (simp add: get_correct_symbol_def)
      moreover have "w \<noteq> ?y"
        using symbol_map_entry(2) [OF Some] True by auto
      ultimately show ?thesis
        by simp
    qed
    then show ?thesis
      using gx True by simp
  qed
qed

subsection \<open>The clean-up script changes symbols only\<close>

text \<open>
  C9. \<^verbatim>\<open>fix_portfolio\<close> writes back a table with as many rows as it read, in which
  every row keeps its quantity and all its other columns; only \<open>Symbol\<close> is
  replaced, by its normal form. A file it cannot read is left as it is.
\<close>

theorem fix_portfolio_frame:
  "fix_portfolio None = (None :: 'a csv_file)
   \<and> (\<exists>df'. fix_portfolio (Some df) = Some df'
        \<and> length df' = length df
        \<and> map Quantity df' = map Quantity df
        \<and> map Other df' = map Other df
        \<and> map Symbol df' = map (\<lambda>row. get_correct_symbol (Symbol row)) df)"
  by (simp add: fix_portfolio_def read_csv_def comp_def)

subsection \<open>Quotes from the closing prices\<close>

lemma iloc_last: "iloc (ys @ [p, c]) (- 1) = Inr c"
  by (simp add: iloc_def nth_append)

lemma iloc_second_last: "iloc (ys @ [p, c]) (- 2) = Inr p"
  by (simp add: iloc_def nth_append)

lemma iloc_single: "iloc [c] (- 1) = Inr c"
  by (simp add: iloc_def)

lemma ticker_quote_raises: "close t = Inl e \<Longrightarrow> ticker_quote close t = Inl e"
  by (simp add: ticker_quote_def)

lemma ticker_quote_two:
  "close t = Inr series \<Longrightarrow> dropna series = ys @ [p, c] \<Longrightarrow>
     ticker_quote close t = Inr (c, fmul (fdiv (fsub c p) p) (Fin 100))"
  by (simp add: ticker_quote_def iloc_last iloc_second_last)

lemma ticker_quote_one:
  "close t = Inr series \<Longrightarrow> dropna series = [c] \<Longrightarrow> ticker_quote close t = Inr (c, Fin 0)"
  by (simp add: ticker_quote_def iloc_single)

lemma ticker_quote_none:
  "close t = Inr series \<Longrightarrow> dropna series = [] \<Longrightarrow> ticker_quote close t = Inr (Fin 0, Fin 0)"
  by (simp add: ticker_quote_def)

lemma ticker_loop_lookup:
  assumes "ticker_loop close ts (cp, pc) = (cp', pc')"
  shows "t \<in> set ts \<Longrightarrow>
           (cp' t, pc' t) = (case ticker_quote close t of
                               Inr (price, change) \<Rightarrow> (Some price, Some change)
                             | Inl e \<Rightarrow> (Some (Fin 0), Some (Fin 0)))"
    and "t \<notin> set ts \<Longrightarrow> cp' t = cp t \<and> pc' t = pc t"
  using assms
proof (induction ts arbitrary: cp pc)
  case Nil
  { case 1 then show ?case by simp }
  { case 2 then show ?case by simp }
next
  case (Cons u rest)
  { case 1
    show ?case
    proof (cases "ticker_quote close u")
      case (Inl e)
      with 1 have loop: "ticker_loop close rest (cp(u \<mapsto> Fin 0), pc(u \<mapsto> Fin 0)) = (cp', pc')"
        by simp
      show ?thesis
      proof (cases "t \<in> set rest")
        case True
        then show ?thesis using Cons.IH(1) [OF _ loop] by simp
      next
        case False
        with 1 have "t = u" by simp
        moreover have "cp' t = (cp(u \<mapsto> Fin 0)) t \<and> pc' t = (pc(u \<mapsto> Fin 0)) t"
          using Cons.IH(2) [OF False loop] .
        ultimately show ?thesis using Inl by simp
      qed
    next
      case (Inr q)
      obtain price change where q: "q = (price, change)" by (cases q)
      with 1 Inr have loop: "ticker_loop close rest (cp(u \<mapsto> price), pc(u \<mapsto> change)) = (cp', pc')"
        by simp
      show ?thesis
      proof (cases "t \<in> set rest")
        case True
        then show ?thesis using Cons.IH(1) [OF _ loop] by simp
      next
        case False
        with 1 have "t = u" by simp
        moreover have "cp' t = (cp(u \<mapsto> price)) t \<and> pc' t = (pc(u \<mapsto> change)) t"
          using Cons.IH(2) [OF False loop] .
        ultimately show ?thesis using Inr q by simp
      qed
    qed }
  { case 2
    show ?case
    proof (cases "ticker_quote close u")
      case (Inl e)
      with 2 have loop: "ticker_loop close rest (cp(u \<mapsto> Fin 0), pc(u \<mapsto> Fin 0)) = (cp', pc')"
        by simp
      from 2 have "t \<notin> set rest" "t \<noteq> u" by auto
      then show ?thesis using Cons.IH(2) [OF _ loop] by simp
    next
      case (Inr q)
      obtain price change where q: "q = (price, change)" by (cases q)
      with 2 Inr have loop: "ticker_loop close rest (cp(u \<mapsto> price), pc(u \<mapsto> change)) = (cp', pc')"
        by simp
      from 2 have "t \<notin> set rest" "t \<noteq> u" by auto
      then show ?thesis using Cons.IH(2) [OF _ loop] by simp
    qed }
qed

lemma fetch_market_data_returns:
  assumes "download (all_tickers df) = Inr close"
  obtains cp pc where "fetch_market_data download df = Inr (cp, pc)"
    and "ticker_loop close (all_tickers df) (Map.empty, Map.empty) = (cp, pc)"
  using assms by (cases "ticker_loop close (all_tickers df) (Map.empty, Map.empty)")
    (simp add: fetch_market_data_def)

text \<open>The spec's example in the code's arithmetic: 10/100 rounds to the double next to 0.1, and that times 100 rounds to 10.\<close>

lemma change_100_110:
  "fmul (fdiv (fsub (Fin 110) (Fin 100)) (Fin 100)) (Fin 100) = Fin 10"
proof -
  have "fsub (Fin 110) (Fin 100) = Fin 10"
    by (simp add: fsub_def round_double_ints)
  moreover have "round_double (10 / 100) = Fin (3602879701896397 / 36028797018963968)"
    by (subst round_double_in_binade [of "- 4"]) (simp_all add: round_half_even_def Let_def)
  moreover have "round_double (3602879701896397 / 36028797018963968 * 100) = Fin 10"
    by (subst round_double_in_binade [of 3]) (simp_all add: round_half_even_def Let_def)
  ultimately show ?thesis
    by simp
qed

text \<open>
  C3. When the download succeeds and the ticker's series is available, the quote is
  derived from the observations that are not missing, whatever gaps the series has:
  with at least two of them the price is the last and the change is
  \<open>(last - previous) / previous * 100\<close> of the last two, each operation carried out in
  double arithmetic as the code does; with one, the price is that observation and the
  change 0; with none, both are 0.
\<close>

theorem quote_from_non_missing:
  assumes "download (all_tickers df) = Inr close"
    and "t \<in> set (all_tickers df)"
    and "close t = Inr series"
  shows "\<exists>cp pc. fetch_market_data download df = Inr (cp, pc)
     \<and> (\<forall>ys p c. dropna series = ys @ [p, c] \<longrightarrow>
            cp t = Some c \<and> pc t = Some (fmul (fdiv (fsub c p) p) (Fin 100)))
     \<and> (\<forall>c. dropna series = [c] \<longrightarrow> cp t = Some c \<and> pc t = Some (Fin 0))
     \<and> (dropna series = [] \<longrightarrow> cp t = Some (Fin 0) \<and> pc t = Some (Fin 0))"
proof -
  from assms(1) obtain cp pc
    where res: "fetch_market_data download df = Inr (cp, pc)"
      and loop: "ticker_loop close (all_tickers df) (Map.empty, Map.empty) = (cp, pc)"
    by (rule fetch_market_data_returns)
  note at_t = ticker_loop_lookup(1) [OF loop assms(2)]
  have two: "cp t = Some c \<and> pc t = Some (fmul (fdiv (fsub c p) p) (Fin 100))"
    if "dropna series = ys @ [p, c]" for ys p c
    using at_t ticker_quote_two [of close t, OF assms(3) that] by simp
  have one: "cp t = Some c \<and> pc t = Some (Fin 0)" if "dropna series = [c]" for c
    using at_t ticker_quote_one [of close t, OF assms(3) that] by simp
  have none: "cp t = Some (Fin 0) \<and> pc t = Some (Fin 0)" if "dropna series = []"
    using at_t ticker_quote_none [of close t, OF assms(3) that] by simp
  from res two one none show ?thesis
    by blast
qed

theorem quote_from_non_missing_witness:
  "\<exists>cp pc.
     fetch_market_data
       (\<lambda>tickers. Inr (\<lambda>t. if t = ''AAA.NS'' then Inr [NaN, Fin 100, NaN, Fin 110]
                             else if t = ''^NSEI'' then Inr [NaN, Fin 5]
                             else Inr [NaN]))
       [\<lparr>Symbol = ''AAA.NS'', Quantity = Fin 10, Other = ()\<rparr>] = Inr (cp, pc)
     \<and> cp ''AAA.NS'' = Some (Fin 110) \<and> pc ''AAA.NS'' = Some (Fin 10)
     \<and> cp ''^NSEI'' = Some (Fin 5) \<and> pc ''^NSEI'' = Some (Fin 0)
     \<and> cp ''^BSESN'' = Some (Fin 0) \<and> pc ''^BSESN'' = Some (Fin 0)"
proof -
  let ?close = "\<lambda>t. if t = ''AAA.NS'' then Inr [NaN, Fin 100, NaN, Fin 110]
                     else if t = ''^NSEI'' then Inr [NaN, Fin 5]
                     else (Inr [NaN] :: py_exception + num list)"
  let ?download = "\<lambda>tickers :: string list. (Inr ?close :: py_exception + close_data)"
  let ?df = "[\<lparr>Symbol = ''AAA.NS'', Quantity = Fin 10, Other = ()\<rparr>]"
  have download: "?download (all_tickers ?df) = Inr ?close"
    by simp
  have tickers: "''AAA.NS'' \<in> set (all_tickers ?df)" "''^NSEI'' \<in> set (all_tickers ?df)"
    "''^BSESN'' \<in> set (all_tickers ?df)"
    by (simp_all add: all_tickers_def)
  have series: "?close ''AAA.NS'' = Inr [NaN, Fin 100, NaN, Fin 110]"
    "?close ''^NSEI'' = Inr [NaN, Fin 5]" "?close ''^BSESN'' = Inr [NaN]"
    by simp_all
  have observed: "dropna [NaN, Fin 100, NaN, Fin 110] = [] @ [Fin 100, Fin 110]"
    "dropna [NaN, Fin 5] = [Fin 5]" "dropna [NaN] = []"
    by (simp_all add: dropna_def)
  obtain cp pc where res: "fetch_market_data ?download ?df = Inr (cp, pc)"
    using download by (rule fetch_market_data_returns)
  have "cp ''AAA.NS'' = Some (Fin 110)
      \<and> pc ''AAA.NS'' = Some (fmul (fdiv (fsub (Fin 110) (Fin 100)) (Fin 100)) (Fin 100))"
    using quote_from_non_missing [OF download tickers(1) series(1)] res observed(1) by fastforce
  moreover have "cp ''^NSEI'' = Some (Fin 5) \<and> pc ''^NSEI'' = Some (Fin 0)"
    using quote_from_non_missing [OF download tickers(2) series(2)] res observed(2) by fastforce
  moreover have "cp ''^BSESN'' = Some (Fin 0) \<and> pc ''^BSESN'' = Some (Fin 0)"
    using quote_from_non_missing [OF download tickers(3) series(3)] res observed(3) by fastforce
  ultimately show ?thesis
    using res change_100_110 by simp
qed

text \<open>
  The change is the double the code computes, not the real quotient: closes of 3 and
  of the double next to 3.3 give the double next to 9.999999999999993, not 10.
\<close>

lemma change_rounds_as_float64:
  "ticker_quote (\<lambda>t. Inr [Fin 3, Fin (3715469692580659 / 1125899906842624)]) t
     = Inr (Fin (3715469692580659 / 1125899906842624),
            Fin (1407374883553279 / 140737488355328))"
proof -
  have "round_double (3715469692580659 / 1125899906842624 + - 3)
          = Fin (337769972052787 / 1125899906842624)"
    by (subst round_double_in_binade [of "- 2"]) (simp_all add: round_half_even_def Let_def)
  moreover have "round_double (337769972052787 / 1125899906842624 / 3)
          = Fin (7205759403792789 / 72057594037927936)"
    by (subst round_double_in_binade [of "- 4"]) (simp_all add: round_half_even_def Let_def)
  moreover have "round_double (7205759403792789 / 72057594037927936 * 100)
          = Fin (1407374883553279 / 140737488355328)"
    by (subst round_double_in_binade [of 3]) (simp_all add: round_half_even_def Let_def)
  ultimately show ?thesis
    by (simp add: ticker_quote_def dropna_def iloc_def fsub_def)
qed

text \<open>
  C5. A ticker whose series cannot be read gets the zero quote, the loop goes on, and
  every ticker whose series can be read gets the quote of its own series: the batch
  returns both dictionaries whenever the download itself returned.
\<close>

theorem per_ticker_isolation:
  assumes "download (all_tickers df) = Inr close"
  shows "\<exists>cp pc. fetch_market_data download df = Inr (cp, pc)
     \<and> (\<forall>t \<in> set (all_tickers df).
          (\<forall>e. close t = Inl e \<longrightarrow> cp t = Some (Fin 0) \<and> pc t = Some (Fin 0))
        \<and> (\<forall>series. close t = Inr series \<longrightarrow>
              (\<exists>price change. ticker_quote (\<lambda>other. Inr series) t = Inr (price, change)
                 \<and> cp t = Some price \<and> pc t = Some change)))"
proof -
  from assms obtain cp pc
    where res: "fetch_market_data download df = Inr (cp, pc)"
      and loop: "ticker_loop close (all_tickers df) (Map.empty, Map.empty) = (cp, pc)"
    by (rule fetch_market_data_returns)
  have "cp t = Some (Fin 0) \<and> pc t = Some (Fin 0)"
    if "t \<in> set (all_tickers df)" and "close t = Inl e" for t e
    using ticker_loop_lookup(1) [OF loop that(1)] ticker_quote_raises [of close t, OF that(2)] by simp
  moreover have "\<exists>price change. ticker_quote (\<lambda>other. Inr series) t = Inr (price, change)
                 \<and> cp t = Some price \<and> pc t = Some change"
    if "t \<in> set (all_tickers df)" and "close t = Inr series" for t series
  proof -
    have same: "ticker_quote (\<lambda>other. Inr series) t = ticker_quote close t"
      using that(2) by (simp add: ticker_quote_def)
    have "\<exists>q. ticker_quote close t = Inr q"
      using that(2) by (auto simp: ticker_quote_def iloc_def Let_def)
    then obtain price change where "ticker_quote close t = Inr (price, change)"
      by fastforce
    then show ?thesis
      using ticker_loop_lookup(1) [OF loop that(1)] same by simp
  qed
  ultimately show ?thesis
    using res by blast
qed

theorem per_ticker_isolation_witness:
  "\<exists>cp pc.
     fetch_market_data
       (\<lambda>tickers. Inr (\<lambda>t. if t = ''AAA.NS'' then Inl (KeyError ''AAA.NS'')
                             else Inr [Fin 100, Fin 110]))
       [\<lparr>Symbol = ''AAA.NS'', Quantity = Fin 10, Other = ()\<rparr>,
        \<lparr>Symbol = ''BBB.NS'', Quantity = Fin 5, Other = ()\<rparr>] = Inr (cp, pc)
     \<and> cp ''AAA.NS'' = Some (Fin 0) \<and> pc ''AAA.NS'' = Some (Fin 0)
     \<and> cp ''BBB.NS'' = Some (Fin 110) \<and> pc ''BBB.NS'' = Some (Fin 10)"
proof -
  let ?close = "\<lambda>t. if t = ''AAA.NS'' then Inl (KeyError ''AAA.NS'')
                     else (Inr [Fin 100, Fin 110] :: py_exception + num list)"
  let ?download = "\<lambda>tickers :: string list. (Inr ?close :: py_exception + close_data)"
  let ?df = "[\<lparr>Symbol = ''AAA.NS'', Quantity = Fin 10, Other = ()\<rparr>,
              \<lparr>Symbol = ''BBB.NS'', Quantity = Fin 5, Other = ()\<rparr>]"
  have "?download (all_tickers ?df) = Inr ?close"
    by simp
  from per_ticker_isolation [of ?download ?df ?close, OF this]
  obtain cp pc where res: "fetch_market_data ?download ?df = Inr (cp, pc)"
    and each: "\<forall>t \<in> set (all_tickers ?df).
          (\<forall>e. ?close t = Inl e \<longrightarrow> cp t = Some (Fin 0) \<and> pc t = Some (Fin 0))
        \<and> (\<forall>series. ?close t = Inr series \<longrightarrow>
              (\<exists>price change. ticker_quote (\<lambda>other. Inr series) t = Inr (price, change)
                 \<and> cp t = Some price \<and> pc t = Some change))"
    by blast
  have a: "''AAA.NS'' \<in> set (all_tickers ?df)" and b: "''BBB.NS'' \<in> set (all_tickers ?df)"
    by (simp_all add: all_tickers_def)
  have "?close ''AAA.NS'' = Inl (KeyError ''AAA.NS'')"
    by simp
  with each a have failed: "cp ''AAA.NS'' = Some (Fin 0) \<and> pc ''AAA.NS'' = Some (Fin 0)"
    by blast
  have "?close ''BBB.NS'' = Inr [Fin 100, Fin 110]"
    by simp
  with each b obtain price change
    where q: "ticker_quote (\<lambda>other. Inr [Fin 100, Fin 110]) ''BBB.NS'' = Inr (price, change)"
      and stored: "cp ''BBB.NS'' = Some price \<and> pc ''BBB.NS'' = Some change"
    by blast
  have "ticker_quote (\<lambda>other. Inr [Fin 100, Fin 110]) ''BBB.NS'' = Inr (Fin 110, Fin 10)"
    using change_100_110 by (simp add: ticker_quote_def dropna_def iloc_def)
  with q have "price = Fin 110" "change = Fin 10"
    by simp_all
  with res failed stored show ?thesis
    by simp
qed

lemma fetch_market_data_download_fails:
  "download (all_tickers df) = Inl e \<Longrightarrow> fetch_market_data download df = Inl e"
  by (simp add: fetch_market_data_def)

subsection \<open>The performance calculation\<close>

lemma full_df_eq: "full_df (calculate_performance df cp pc) = map (add_columns cp pc) df"
  by (simp add: calculate_performance_def Let_def)

lemma full_df_nth:
  "i < length df \<Longrightarrow>
     full_df (calculate_performance df cp pc) ! i = add_columns cp pc (df ! i)"
  by (simp add: full_df_eq)

text \<open>The columns of a row, as the source assigns them.\<close>

lemma add_columns_fields:
  "CurrentPrice (add_columns cp pc row) = series_map cp (Symbol row)"
  "ChangePct (add_columns cp pc row) = series_map pc (Symbol row)"
  "CurrentValue (add_columns cp pc row) = fmul (Quantity row) (series_map cp (Symbol row))"
  "DailyPnL (add_columns cp pc row)
     = fsub (CurrentValue (add_columns cp pc row))
         (fdiv (CurrentValue (add_columns cp pc row))
            (fadd (Fin 1) (fdiv (ChangePct (add_columns cp pc row)) (Fin 100))))"
  "Symbol (add_columns cp pc row) = Symbol row"
  by (simp_all add: add_columns_def pnl_divisor_def Let_def)

text \<open>A finite product or quotient is a double, and dividing a double by 1 returns it.\<close>

lemma fmul_finite_double: "fmul a b = Fin v \<Longrightarrow> round_double v = Fin v"
  by (cases a; cases b) (auto simp: signed_inf_def dest: round_double_idem split: if_splits)

lemma pnl_at_change_0:
  assumes "round_double v = Fin v"
  shows "fsub (Fin v) (fdiv (Fin v) (fadd (Fin 1) (fdiv (Fin 0) (Fin 100)))) = Fin 0"
  using assms by (simp add: fsub_def round_double_0 round_double_1)

text \<open>The product of two doubles overflows: \<open>2\<^sup>5\<^sup>1\<^sup>2\<close> times \<open>2\<^sup>5\<^sup>1\<^sup>2\<close> is plus infinity.\<close>

lemma fmul_overflows: "fmul (Fin (2 ^ 512)) (Fin (2 ^ 512)) = PInf"
proof -
  have "round_double (2 ^ 512 * 2 ^ 512) = PInf"
    by (subst round_double_in_binade [of 1024])
      (simp_all add: round_half_even_def Let_def signed_inf_def)
  then show ?thesis
    by simp
qed

text \<open>The daily P&L of 10 shares at 110 after a change of 10 percent, operation by operation.\<close>

lemma pnl_10_110_10:
  "fsub (Fin 1100) (fdiv (Fin 1100) (fadd (Fin 1) (fdiv (Fin 10) (Fin 100))))
     = Fin (879609302220801 / 8796093022208)"
proof -
  have "round_double (10 / 100) = Fin (3602879701896397 / 36028797018963968)"
    by (subst round_double_in_binade [of "- 4"]) (simp_all add: round_half_even_def Let_def)
  moreover have "round_double (1 + 3602879701896397 / 36028797018963968)
                   = Fin (2476979795053773 / 2251799813685248)"
    by (subst round_double_in_binade [of 0]) (simp_all add: round_half_even_def Let_def)
  moreover have "round_double (1100 / (2476979795053773 / 2251799813685248))
                   = Fin (8796093022207999 / 8796093022208)"
    by (subst round_double_in_binade [of 9]) (simp_all add: round_half_even_def Let_def)
  moreover have "round_double (1100 + - (8796093022207999 / 8796093022208))
                   = Fin (879609302220801 / 8796093022208)"
    by (subst round_double_in_binade [of 6]) (simp_all add: round_half_even_def Let_def)
  ultimately show ?thesis
    by (simp add: fsub_def)
qed

lemma pnl_10_110_10_double:
  "round_double (879609302220801 / 8796093022208) = Fin (879609302220801 / 8796093022208)"
  by (subst round_double_in_binade [of 6]) (simp_all add: round_half_even_def Let_def)

text \<open>
  C1, as the claim states it, fails in the code's arithmetic. With a quantity and a
  price of \<open>2\<^sup>5\<^sup>1\<^sup>2\<close> and a change of 0 the current value overflows to infinity and the
  daily P&L is NaN, not 0; and for 10 shares at 110 after a change of 10 percent it is
  the double next to 100.00000000000011, not the real number 100 of the formula.
\<close>

theorem daily_pnl_not_exact:
  "DailyPnL (full_df (calculate_performance
       [\<lparr>Symbol = ''AAA.NS'', Quantity = Fin (2 ^ 512), Other = ()\<rparr>]
       [''AAA.NS'' \<mapsto> Fin (2 ^ 512)] [''AAA.NS'' \<mapsto> Fin 0]) ! 0) = NaN
   \<and> DailyPnL (full_df (calculate_performance
       [\<lparr>Symbol = ''AAA.NS'', Quantity = Fin 10, Other = ()\<rparr>]
       [''AAA.NS'' \<mapsto> Fin 110] [''AAA.NS'' \<mapsto> Fin 10]) ! 0)
       = Fin (879609302220801 / 8796093022208)
   \<and> Fin (879609302220801 / 8796093022208) \<noteq> Fin (10 * 110 - 10 * 110 / (1 + 10 / 100))"
proof -
  have "fdiv (Fin 0) (Fin 100) = Fin 0" "fadd (Fin 1) (Fin 0) = Fin 1"
    "fdiv PInf (Fin 1) = PInf" "fadd PInf (fneg PInf) = NaN"
    by (simp_all add: round_double_ints signed_inf_def)
  with fmul_overflows have "DailyPnL (full_df (calculate_performance
       [\<lparr>Symbol = ''AAA.NS'', Quantity = Fin (2 ^ 512), Other = ()\<rparr>]
       [''AAA.NS'' \<mapsto> Fin (2 ^ 512)] [''AAA.NS'' \<mapsto> Fin 0]) ! 0) = NaN"
    by (simp add: full_df_eq add_columns_fields series_map_def fsub_def
        del: fmul.simps fdiv.simps fadd.simps)
  moreover have "fmul (Fin 10) (Fin 110) = Fin 1100"
    by (simp add: round_double_ints)
  then have "DailyPnL (full_df (calculate_performance
       [\<lparr>Symbol = ''AAA.NS'', Quantity = Fin 10, Other = ()\<rparr>]
       [''AAA.NS'' \<mapsto> Fin 110] [''AAA.NS'' \<mapsto> Fin 10]) ! 0)
       = Fin (879609302220801 / 8796093022208)"
    by (simp add: full_df_eq add_columns_fields series_map_def pnl_10_110_10
        del: fmul.simps fdiv.simps fadd.simps)
  ultimately show ?thesis
    by simp
qed

text \<open>
  C1, amended. For every position the current value is quantity times price and the
  daily P&L is \<open>value - value / (1 + change / 100)\<close>, each operation carried out in
  double arithmetic (rounded to the nearest double, an infinity on overflow) on the
  position's quantity and its price and change from the two dictionaries; when the
  change is 0 and the current value is finite, the daily P&L is exactly 0.
\<close>

theorem daily_pnl_formula:
  assumes "i < length df"
  shows "ChangePct (full_df (calculate_performance df cp pc) ! i) = series_map pc (Symbol (df ! i))
     \<and> CurrentValue (full_df (calculate_performance df cp pc) ! i)
          = fmul (Quantity (df ! i)) (series_map cp (Symbol (df ! i)))
     \<and> DailyPnL (full_df (calculate_performance df cp pc) ! i)
          = fsub (CurrentValue (full_df (calculate_performance df cp pc) ! i))
              (fdiv (CurrentValue (full_df (calculate_performance df cp pc) ! i))
                 (fadd (Fin 1)
                    (fdiv (ChangePct (full_df (calculate_performance df cp pc) ! i)) (Fin 100))))
     \<and> (pc (Symbol (df ! i)) = Some (Fin 0)
          \<and> is_finite (CurrentValue (full_df (calculate_performance df cp pc) ! i))
        \<longrightarrow> DailyPnL (full_df (calculate_performance df cp pc) ! i) = Fin 0)"
proof -
  let ?row = "full_df (calculate_performance df cp pc) ! i"
  have row: "?row = add_columns cp pc (df ! i)"
    using assms by (rule full_df_nth)
  have pnl: "DailyPnL ?row
          = fsub (CurrentValue ?row)
              (fdiv (CurrentValue ?row) (fadd (Fin 1) (fdiv (ChangePct ?row) (Fin 100))))"
    unfolding row by (rule add_columns_fields(4))
  have "DailyPnL ?row = Fin 0"
    if zero: "pc (Symbol (df ! i)) = Some (Fin 0)" and finite: "is_finite (CurrentValue ?row)"
  proof -
    from finite obtain v where v: "CurrentValue ?row = Fin v"
      by (cases "CurrentValue ?row") simp_all
    then have "fmul (Quantity (df ! i)) (series_map cp (Symbol (df ! i))) = Fin v"
      by (simp add: row add_columns_fields)
    then have "round_double v = Fin v"
      by (rule fmul_finite_double)
    moreover have "ChangePct ?row = Fin 0"
      using zero by (simp add: row add_columns_fields series_map_def)
    ultimately show ?thesis
      unfolding pnl v using pnl_at_change_0 by simp
  qed
  then show ?thesis
    using pnl by (simp add: row add_columns_fields)
qed

theorem daily_pnl_formula_witness:
  "CurrentValue (full_df (calculate_performance
       [\<lparr>Symbol = ''AAA.NS'', Quantity = Fin 10, Other = ()\<rparr>,
        \<lparr>Symbol = ''BBB.NS'', Quantity = Fin 4, Other = ()\<rparr>]
       [''AAA.NS'' \<mapsto> Fin 110, ''BBB.NS'' \<mapsto> Fin 25]
       [''AAA.NS'' \<mapsto> Fin 10, ''BBB.NS'' \<mapsto> Fin 0]) ! 0) = Fin 1100
   \<and> DailyPnL (full_df (calculate_performance
       [\<lparr>Symbol = ''AAA.NS'', Quantity = Fin 10, Other = ()\<rparr>,
        \<lparr>Symbol = ''BBB.NS'', Quantity = Fin 4, Other = ()\<rparr>]
       [''AAA.NS'' \<mapsto> Fin 110, ''BBB.NS'' \<mapsto> Fin 25]
       [''AAA.NS'' \<mapsto> Fin 10, ''BBB.NS'' \<mapsto> Fin 0]) ! 0)
       = Fin (879609302220801 / 8796093022208)
   \<and> CurrentValue (full_df (calculate_performance
       [\<lparr>Symbol = ''AAA.NS'', Quantity = Fin 10, Other = ()\<rparr>,
        \<lparr>Symbol = ''BBB.NS'', Quantity = Fin 4, Other = ()\<rparr>]
       [''AAA.NS'' \<mapsto> Fin 110, ''BBB.NS'' \<mapsto> Fin 25]
       [''AAA.NS'' \<mapsto> Fin 10, ''BBB.NS'' \<mapsto> Fin 0]) ! 1) = Fin 100
   \<and> DailyPnL (full_df (calculate_performance
       [\<lparr>Symbol = ''AAA.NS'', Quantity = Fin 10, Other = ()\<rparr>,
        \<lparr>Symbol = ''BBB.NS'', Quantity = Fin 4, Other = ()\<rparr>]
       [''AAA.NS'' \<mapsto> Fin 110, ''BBB.NS'' \<mapsto> Fin 25]
       [''AAA.NS'' \<mapsto> Fin 10, ''BBB.NS'' \<mapsto> Fin 0]) ! 1) = Fin 0"
proof -
  let ?df = "[\<lparr>Symbol = ''AAA.NS'', Quantity = Fin 10, Other = ()\<rparr>,
              \<lparr>Symbol = ''BBB.NS'', Quantity = Fin 4, Other = ()\<rparr>]"
  let ?cp = "[''AAA.NS'' \<mapsto> Fin 110, ''BBB.NS'' \<mapsto> Fin 25]"
  let ?pc = "[''AAA.NS'' \<mapsto> Fin 10, ''BBB.NS'' \<mapsto> Fin 0]"
  let ?full = "full_df (calculate_performance ?df ?cp ?pc)"
  have products: "fmul (Fin 10) (Fin 110) = Fin 1100" "fmul (Fin 4) (Fin 25) = Fin 100"
    by (simp_all add: round_double_ints)
  have first: "0 < length ?df" and second: "1 < length ?df"
    by simp_all
  note r0 = daily_pnl_formula [OF first, of ?cp ?pc]
  note r1 = daily_pnl_formula [OF second, of ?cp ?pc]
  have change0: "ChangePct (?full ! 0) = Fin 10" and value0: "CurrentValue (?full ! 0) = Fin 1100"
    using r0 products(1) by (simp_all add: series_map_def del: fmul.simps)
  have pnl0: "DailyPnL (?full ! 0) = Fin (879609302220801 / 8796093022208)"
    using r0 pnl_10_110_10 unfolding change0 value0 by simp
  have value1: "CurrentValue (?full ! 1) = Fin 100"
    using r1 products(2) by (simp add: series_map_def del: fmul.simps)
  have "?pc (Symbol (?df ! 1)) = Some (Fin 0) \<and> is_finite (CurrentValue (?full ! 1))"
    unfolding value1 by simp
  with r1 have pnl1: "DailyPnL (?full ! 1) = Fin 0"
    by blast
  from value0 pnl0 value1 pnl1 show ?thesis
    by simp
qed


lemma fdiv_by_zero_not_finite: "\<not> is_finite (fdiv a (Fin 0))"
  by (cases a) (simp_all add: signed_inf_def)

lemma fsub_fdiv_zero:
  "fsub a (fdiv a (Fin 0)) =
     (case a of Fin v \<Rightarrow> (if v = 0 then NaN else if 0 < v then NInf else PInf) | _ \<Rightarrow> NaN)"
  by (cases a) (simp_all add: fsub_def signed_inf_def)

lemma pnl_divisor_minus_100: "pnl_divisor (Fin (- 100)) = Fin 0"
  by (simp add: pnl_divisor_def round_double_ints)

text \<open>
  C2, as the claim states it, fails: nothing guards the boundary. At a change of -100
  the divisor is 0, the division is carried out, and the daily P&L of a position worth
  1100 is minus infinity.
\<close>

theorem division_by_zero_reached:
  "pnl_divisor (Fin (- 100)) = Fin 0
   \<and> DailyPnL (full_df (calculate_performance
        [\<lparr>Symbol = ''AAA.NS'', Quantity = Fin 10, Other = ()\<rparr>]
        [''AAA.NS'' \<mapsto> Fin 110] [''AAA.NS'' \<mapsto> Fin (- 100)]) ! 0) = NInf"
  by (simp add: full_df_eq add_columns_def series_map_def pnl_divisor_def fsub_def signed_inf_def
      Let_def round_double_ints)

text \<open>
  C2, amended. At a change of -100 the divisor is 0 and the division is carried out
  without raising: the daily P&L of the position is never a finite number (NaN for a
  current value of 0, minus infinity for a positive one, plus infinity for a negative
  one).
\<close>

theorem division_by_zero_unguarded:
  assumes "i < length df"
    and "pc (Symbol (df ! i)) = Some (Fin (- 100))"
  shows "pnl_divisor (ChangePct (full_df (calculate_performance df cp pc) ! i)) = Fin 0
     \<and> \<not> is_finite (DailyPnL (full_df (calculate_performance df cp pc) ! i))
     \<and> (\<forall>v. CurrentValue (full_df (calculate_performance df cp pc) ! i) = Fin v \<longrightarrow>
           DailyPnL (full_df (calculate_performance df cp pc) ! i)
             = (if v = 0 then NaN else if 0 < v then NInf else PInf))"
proof -
  let ?row = "full_df (calculate_performance df cp pc) ! i"
  have change: "ChangePct ?row = Fin (- 100)"
    using assms(2) by (simp add: full_df_nth [OF assms(1)] add_columns_def series_map_def Let_def)
  have pnl: "DailyPnL ?row = fsub (CurrentValue ?row) (fdiv (CurrentValue ?row) (Fin 0))"
    using assms(2) pnl_divisor_minus_100
    by (simp add: full_df_nth [OF assms(1)] add_columns_def series_map_def Let_def)
  have "\<not> is_finite (DailyPnL ?row)"
    unfolding pnl fsub_fdiv_zero by (cases "CurrentValue ?row") simp_all
  moreover have "DailyPnL ?row = (if v = 0 then NaN else if 0 < v then NInf else PInf)"
    if "CurrentValue ?row = Fin v" for v
    unfolding pnl fsub_fdiv_zero using that by simp
  ultimately show ?thesis
    using change pnl_divisor_minus_100 by simp
qed

theorem division_by_zero_unguarded_witness:
  "pnl_divisor (ChangePct (full_df (calculate_performance
        [\<lparr>Symbol = ''AAA.NS'', Quantity = Fin 10, Other = ()\<rparr>]
        [''AAA.NS'' \<mapsto> Fin 110] [''AAA.NS'' \<mapsto> Fin (- 100)]) ! 0)) = Fin 0
   \<and> \<not> is_finite (DailyPnL (full_df (calculate_performance
        [\<lparr>Symbol = ''AAA.NS'', Quantity = Fin 10, Other = ()\<rparr>]
        [''AAA.NS'' \<mapsto> Fin 110] [''AAA.NS'' \<mapsto> Fin (- 100)]) ! 0))"
  using division_by_zero_unguarded
    [of 0 "[\<lparr>Symbol = ''AAA.NS'', Quantity = Fin 10, Other = ()\<rparr>]"
        "[''AAA.NS'' \<mapsto> Fin (- 100)]" "[''AAA.NS'' \<mapsto> Fin 110]"]
  by simp


lemma total_value_eq:
  "total_value (calculate_performance df cp pc) = pd_sum (map (\<lambda>row. CurrentValue (add_columns cp pc row)) df)"
  by (simp add: calculate_performance_def Let_def comp_def)

lemma total_daily_pnl_eq:
  "total_daily_pnl (calculate_performance df cp pc) = pd_sum (map (\<lambda>row. DailyPnL (add_columns cp pc row)) df)"
  by (simp add: calculate_performance_def Let_def comp_def)





subsection \<open>Top movers\<close>

lemma mset_insort_by: "mset (insort_by precedes x xs) = add_mset x (mset xs)"
  by (induction xs) simp_all

lemma set_insort_by: "set (insort_by precedes x xs) = insert x (set xs)"
  by (induction xs) auto

lemma stable_sort_by_Nil: "stable_sort_by precedes [] = []"
  by (simp add: stable_sort_by_def)

lemma stable_sort_by_Cons:
  "stable_sort_by precedes (x # xs) = insort_by precedes x (stable_sort_by precedes xs)"
  by (simp add: stable_sort_by_def)

lemma mset_stable_sort_by: "mset (stable_sort_by precedes xs) = mset xs"
  by (induction xs) (simp_all add: stable_sort_by_Nil stable_sort_by_Cons mset_insort_by)

lemma set_stable_sort_by: "set (stable_sort_by precedes xs) = set xs"
  by (induction xs) (simp_all add: stable_sort_by_Nil stable_sort_by_Cons set_insort_by)

lemma num_le_refl: "a \<noteq> NaN \<Longrightarrow> num_le a a"
  by (cases a) simp_all

lemma num_le_total: "a \<noteq> NaN \<Longrightarrow> b \<noteq> NaN \<Longrightarrow> num_le a b \<or> num_le b a"
  by (cases a; cases b) auto

lemma num_le_trans: "num_le a b \<Longrightarrow> num_le b c \<Longrightarrow> num_le a c"
  by (cases a; cases b; cases c) simp_all

lemma filter_insort_by:
  assumes "\<forall>y \<in> set ys. P x \<and> P y \<longrightarrow> precedes x y"
  shows "filter P (insort_by precedes x ys) = (if P x then x # filter P ys else filter P ys)"
  using assms by (induction ys) auto

lemma filter_stable_sort_by:
  assumes "\<forall>x \<in> set xs. \<forall>y \<in> set xs. P x \<and> P y \<longrightarrow> precedes x y"
  shows "filter P (stable_sort_by precedes xs) = filter P xs"
  using assms
proof (induction xs)
  case Nil
  then show ?case by (simp add: stable_sort_by_Nil)
next
  case (Cons x xs)
  have "\<forall>y \<in> set (stable_sort_by precedes xs). P x \<and> P y \<longrightarrow> precedes x y"
    using Cons.prems by (simp add: set_stable_sort_by)
  then have "filter P (insort_by precedes x (stable_sort_by precedes xs))
          = (if P x then x # filter P (stable_sort_by precedes xs) else filter P (stable_sort_by precedes xs))"
    by (rule filter_insort_by)
  moreover have "filter P (stable_sort_by precedes xs) = filter P xs"
    using Cons by simp
  ultimately show ?case
    by (simp add: stable_sort_by_Cons)
qed

lemma sorted_insort_by:
  assumes total: "\<forall>a \<in> S. \<forall>b \<in> S. precedes a b \<or> precedes b a"
    and trans: "\<forall>a b c. precedes a b \<and> precedes b c \<longrightarrow> precedes a c"
    and "x \<in> S" and "set xs \<subseteq> S" and "sorted_wrt precedes xs"
  shows "sorted_wrt precedes (insort_by precedes x xs)"
  using assms(4,5)
proof (induction xs)
  case Nil
  then show ?case by simp
next
  case (Cons y ys)
  have y: "y \<in> S" and ys: "set ys \<subseteq> S"
    using Cons.prems(1) by simp_all
  have y_ys: "\<forall>z \<in> set ys. precedes y z" and sorted_ys: "sorted_wrt precedes ys"
    using Cons.prems(2) by simp_all
  show ?case
  proof (cases "precedes x y")
    case True
    have "\<forall>z \<in> set ys. precedes x z"
      using True y_ys trans by blast
    then show ?thesis
      using True y_ys sorted_ys by simp
  next
    case False
    then have "precedes y x"
      using total \<open>x \<in> S\<close> y by blast
    moreover have "sorted_wrt precedes (insort_by precedes x ys)"
      using Cons.IH [OF ys sorted_ys] .
    ultimately show ?thesis
      using False y_ys by (simp add: set_insort_by)
  qed
qed

lemma sorted_stable_sort_by:
  assumes total: "\<forall>a \<in> S. \<forall>b \<in> S. precedes a b \<or> precedes b a"
    and trans: "\<forall>a b c. precedes a b \<and> precedes b c \<longrightarrow> precedes a c"
    and "set xs \<subseteq> S"
  shows "sorted_wrt precedes (stable_sort_by precedes xs)"
  using assms(3)
proof (induction xs)
  case Nil
  then show ?case by (simp add: stable_sort_by_Nil)
next
  case (Cons x xs)
  have "sorted_wrt precedes (stable_sort_by precedes xs)"
    using Cons by simp
  moreover have "x \<in> S" "set (stable_sort_by precedes xs) \<subseteq> S"
    using Cons.prems by (simp_all add: set_stable_sort_by)
  ultimately have "sorted_wrt precedes (insort_by precedes x (stable_sort_by precedes xs))"
    using sorted_insort_by [OF total trans] by blast
  then show ?case
    by (simp add: stable_sort_by_Cons)
qed

lemma mset_sort_values: "mset (sort_values ascending col df) = mset df"
proof -
  have "mset (filter (\<lambda>r. col r \<noteq> NaN) df) + mset (filter (\<lambda>r. col r = NaN) df) = mset df"
    by (induction df) simp_all
  then show ?thesis
    by (simp add: sort_values_def mset_stable_sort_by)
qed

lemma length_sort_values: "length (sort_values ascending col df) = length df"
  using mset_sort_values [of ascending col df] by (metis size_mset)

lemma filter_sort_values:
  "filter (\<lambda>r. col r = k) (sort_values ascending col df) = filter (\<lambda>r. col r = k) df"
proof (cases "k = NaN")
  case True
  have "filter (\<lambda>r. col r = NaN) (stable_sort_by precedes (filter (\<lambda>r. col r \<noteq> NaN) df)) = []" for precedes
    by (simp add: filter_empty_conv set_stable_sort_by)
  then show ?thesis
    using True by (simp add: sort_values_def)
next
  case False
  let ?precedes = "\<lambda>a b. if ascending then num_le (col a) (col b) else num_le (col b) (col a)"
  let ?known = "filter (\<lambda>r. col r \<noteq> NaN) df"
  have "\<forall>x \<in> set ?known. \<forall>y \<in> set ?known. col x = k \<and> col y = k \<longrightarrow> ?precedes x y"
    using False by (simp add: num_le_refl)
  then have "filter (\<lambda>r. col r = k) (stable_sort_by ?precedes ?known) = filter (\<lambda>r. col r = k) ?known"
    by (rule filter_stable_sort_by)
  moreover have "filter (\<lambda>r. col r = k) ?known = filter (\<lambda>r. col r = k) df"
    using False by (induction df) auto
  moreover have "filter (\<lambda>r. col r = k) (filter (\<lambda>r. col r = NaN) df) = []"
    using False by (auto simp: filter_empty_conv)
  ultimately show ?thesis
    by (simp add: sort_values_def)
qed

lemma sorted_sort_values:
  "sorted_wrt (\<lambda>a b. col b = NaN \<or> (if ascending then num_le (col a) (col b) else num_le (col b) (col a)))
     (sort_values ascending col df)"
proof -
  let ?precedes = "\<lambda>a b. if ascending then num_le (col a) (col b) else num_le (col b) (col a)"
  let ?known = "filter (\<lambda>r. col r \<noteq> NaN) df"
  let ?S = "{r. col r \<noteq> NaN}"
  have total: "\<forall>a \<in> ?S. \<forall>b \<in> ?S. ?precedes a b \<or> ?precedes b a"
    using num_le_total by auto
  have trans: "\<forall>a b c. ?precedes a b \<and> ?precedes b c \<longrightarrow> ?precedes a c"
    using num_le_trans by (cases ascending) auto
  have "set ?known \<subseteq> ?S"
    by auto
  with total trans have "sorted_wrt ?precedes (stable_sort_by ?precedes ?known)"
    by (rule sorted_stable_sort_by)
  then have "sorted_wrt (\<lambda>a b. col b = NaN \<or> ?precedes a b) (stable_sort_by ?precedes ?known)"
    by (rule sorted_wrt_mono_rel [rotated]) simp
  moreover have "sorted_wrt (\<lambda>a b. col b = NaN \<or> ?precedes a b) (filter (\<lambda>r. col r = NaN) df)"
    by (induction df) simp_all
  ultimately show ?thesis
    by (simp add: sort_values_def sorted_wrt_append)
qed

text \<open>Sorting the joined rows is joining the sorted positions.\<close>

lemma insort_by_map:
  "insort_by precedes (f x) (map f ys) = map f (insort_by (\<lambda>a b. precedes (f a) (f b)) x ys)"
  by (induction ys) simp_all

lemma stable_sort_by_map:
  "stable_sort_by precedes (map f xs) = map f (stable_sort_by (\<lambda>a b. precedes (f a) (f b)) xs)"
  by (induction xs) (simp_all add: stable_sort_by_Nil stable_sort_by_Cons insort_by_map)

lemma sort_values_map:
  "sort_values ascending col (map f xs) = map f (sort_values ascending (\<lambda>x. col (f x)) xs)"
  by (simp add: sort_values_def filter_map comp_def stable_sort_by_map)

lemma mover_add_columns:
  "mover (add_columns cp pc row)
     = (Symbol row, series_map pc (Symbol row), series_map cp (Symbol row))"
  by (simp add: mover_def add_columns_def Let_def)

lemma top_gainers_eq:
  "top_gainers (calculate_performance df cp pc)
     = map (\<lambda>row. (Symbol row, series_map pc (Symbol row), series_map cp (Symbol row)))
         (take 3 (sort_values False (\<lambda>row. series_map pc (Symbol row)) df))"
proof -
  have "ChangePct (add_columns cp pc row) = series_map pc (Symbol row)" for row :: "'a position"
    by (simp add: add_columns_def Let_def)
  then have "sort_values False ChangePct (map (add_columns cp pc) df)
       = map (add_columns cp pc) (sort_values False (\<lambda>row. series_map pc (Symbol row)) df)"
    by (simp add: sort_values_map)
  then show ?thesis
    by (simp add: calculate_performance_def Let_def nlargest_def take_map comp_def
        mover_add_columns)
qed

lemma top_losers_eq:
  "top_losers (calculate_performance df cp pc)
     = map (\<lambda>row. (Symbol row, series_map pc (Symbol row), series_map cp (Symbol row)))
         (take 3 (sort_values True (\<lambda>row. series_map pc (Symbol row)) df))"
proof -
  have "ChangePct (add_columns cp pc row) = series_map pc (Symbol row)" for row :: "'a position"
    by (simp add: add_columns_def Let_def)
  then have "sort_values True ChangePct (map (add_columns cp pc) df)
       = map (add_columns cp pc) (sort_values True (\<lambda>row. series_map pc (Symbol row)) df)"
    by (simp add: sort_values_map)
  then show ?thesis
    by (simp add: calculate_performance_def Let_def nsmallest_def take_map comp_def
        mover_add_columns)
qed

text \<open>
  C4. Write the change of a position for the entry of its symbol in the dictionary of
  percentage changes (missing when there is none). The top gainers are the symbol,
  change and price of the first three positions of a ranking of the input positions by
  descending change, the top losers those of a ranking by ascending change: each
  ranking is a rearrangement of the input positions, ordered by their change
  (positions without one last), that keeps positions of equal change in their input
  order; each list has \<open>min 3 N\<close> entries.
\<close>

theorem top_movers_ranking:
  "\<exists>gainers losers.
     top_gainers (calculate_performance df cp pc)
       = map (\<lambda>row. (Symbol row, series_map pc (Symbol row), series_map cp (Symbol row)))
           (take 3 gainers)
   \<and> top_losers (calculate_performance df cp pc)
       = map (\<lambda>row. (Symbol row, series_map pc (Symbol row), series_map cp (Symbol row)))
           (take 3 losers)
   \<and> mset gainers = mset df
   \<and> mset losers = mset df
   \<and> sorted_wrt (\<lambda>a b. series_map pc (Symbol b) = NaN
                        \<or> num_le (series_map pc (Symbol b)) (series_map pc (Symbol a))) gainers
   \<and> sorted_wrt (\<lambda>a b. series_map pc (Symbol b) = NaN
                        \<or> num_le (series_map pc (Symbol a)) (series_map pc (Symbol b))) losers
   \<and> (\<forall>k. filter (\<lambda>row. series_map pc (Symbol row) = k) gainers
            = filter (\<lambda>row. series_map pc (Symbol row) = k) df)
   \<and> (\<forall>k. filter (\<lambda>row. series_map pc (Symbol row) = k) losers
            = filter (\<lambda>row. series_map pc (Symbol row) = k) df)
   \<and> length (top_gainers (calculate_performance df cp pc)) = min 3 (length df)
   \<and> length (top_losers (calculate_performance df cp pc)) = min 3 (length df)"
proof -
  let ?change = "\<lambda>row :: 'a position. series_map pc (Symbol row)"
  let ?gainers = "sort_values False ?change df"
  let ?losers = "sort_values True ?change df"
  have "sorted_wrt (\<lambda>a b. ?change b = NaN \<or> num_le (?change b) (?change a)) ?gainers"
    using sorted_sort_values [of ?change False df] by simp
  moreover have "sorted_wrt (\<lambda>a b. ?change b = NaN \<or> num_le (?change a) (?change b)) ?losers"
    using sorted_sort_values [of ?change True df] by simp
  moreover have "length (top_gainers (calculate_performance df cp pc)) = min 3 (length df)"
    by (simp add: top_gainers_eq length_sort_values min.commute)
  moreover have "length (top_losers (calculate_performance df cp pc)) = min 3 (length df)"
    by (simp add: top_losers_eq length_sort_values min.commute)
  ultimately show ?thesis
    using top_gainers_eq [of df cp pc] top_losers_eq [of df cp pc]
      mset_sort_values [of False ?change df] mset_sort_values [of True ?change df]
      filter_sort_values [of ?change _ False df] filter_sort_values [of ?change _ True df]
    by blast
qed

lemma top_movers_example:
  "top_gainers (calculate_performance
      [\<lparr>Symbol = ''A'', Quantity = Fin 1, Other = ()\<rparr>,
       \<lparr>Symbol = ''B'', Quantity = Fin 1, Other = ()\<rparr>,
       \<lparr>Symbol = ''C'', Quantity = Fin 1, Other = ()\<rparr>,
       \<lparr>Symbol = ''D'', Quantity = Fin 1, Other = ()\<rparr>,
       \<lparr>Symbol = ''E'', Quantity = Fin 1, Other = ()\<rparr>]
      [''A'' \<mapsto> Fin 10, ''B'' \<mapsto> Fin 20, ''C'' \<mapsto> Fin 30, ''E'' \<mapsto> Fin 50]
      [''A'' \<mapsto> Fin 2, ''B'' \<mapsto> Fin 5, ''C'' \<mapsto> Fin 2, ''E'' \<mapsto> Fin 5])
     = [(''B'', Fin 5, Fin 20), (''E'', Fin 5, Fin 50), (''A'', Fin 2, Fin 10)]
   \<and> top_losers (calculate_performance
      [\<lparr>Symbol = ''A'', Quantity = Fin 1, Other = ()\<rparr>,
       \<lparr>Symbol = ''B'', Quantity = Fin 1, Other = ()\<rparr>,
       \<lparr>Symbol = ''C'', Quantity = Fin 1, Other = ()\<rparr>,
       \<lparr>Symbol = ''D'', Quantity = Fin 1, Other = ()\<rparr>,
       \<lparr>Symbol = ''E'', Quantity = Fin 1, Other = ()\<rparr>]
      [''A'' \<mapsto> Fin 10, ''B'' \<mapsto> Fin 20, ''C'' \<mapsto> Fin 30, ''E'' \<mapsto> Fin 50]
      [''A'' \<mapsto> Fin 2, ''B'' \<mapsto> Fin 5, ''C'' \<mapsto> Fin 2, ''E'' \<mapsto> Fin 5])
     = [(''A'', Fin 2, Fin 10), (''C'', Fin 2, Fin 30), (''B'', Fin 5, Fin 20)]"
  by (simp add: top_gainers_eq top_losers_eq series_map_def sort_values_def stable_sort_by_def)

text \<open>Changes of 2, 5, -1 and 9: the gainers are D, B, A and the losers C, A, B.\<close>

lemma top_movers_by_change:
  "map fst (top_gainers (calculate_performance
      [\<lparr>Symbol = ''A'', Quantity = Fin 1, Other = ()\<rparr>,
       \<lparr>Symbol = ''B'', Quantity = Fin 1, Other = ()\<rparr>,
       \<lparr>Symbol = ''C'', Quantity = Fin 1, Other = ()\<rparr>,
       \<lparr>Symbol = ''D'', Quantity = Fin 1, Other = ()\<rparr>]
      [''A'' \<mapsto> Fin 10, ''B'' \<mapsto> Fin 20, ''C'' \<mapsto> Fin 30, ''D'' \<mapsto> Fin 40]
      [''A'' \<mapsto> Fin 2, ''B'' \<mapsto> Fin 5, ''C'' \<mapsto> Fin (- 1), ''D'' \<mapsto> Fin 9]))
     = [''D'', ''B'', ''A'']
   \<and> map fst (top_losers (calculate_performance
      [\<lparr>Symbol = ''A'', Quantity = Fin 1, Other = ()\<rparr>,
       \<lparr>Symbol = ''B'', Quantity = Fin 1, Other = ()\<rparr>,
       \<lparr>Symbol = ''C'', Quantity = Fin 1, Other = ()\<rparr>,
       \<lparr>Symbol = ''D'', Quantity = Fin 1, Other = ()\<rparr>]
      [''A'' \<mapsto> Fin 10, ''B'' \<mapsto> Fin 20, ''C'' \<mapsto> Fin 30, ''D'' \<mapsto> Fin 40]
      [''A'' \<mapsto> Fin 2, ''B'' \<mapsto> Fin 5, ''C'' \<mapsto> Fin (- 1), ''D'' \<mapsto> Fin 9]))
     = [''C'', ''A'', ''B'']"
  by (simp add: top_gainers_eq top_losers_eq series_map_def sort_values_def stable_sort_by_def)

subsection \<open>The weekend guard\<close>

text \<open>
  C8. On a Saturday or a Sunday \<^verbatim>\<open>run_briefing\<close> ends in the skip state with an empty
  trace: no stage was entered and no request was sent to any service.
\<close>

theorem weekend_skip:
  "weekday w = 5 \<or> weekday w = 6 \<Longrightarrow> run_briefing w = (Skip, [])"
  by (auto simp: run_briefing_def)

theorem weekend_skip_witness:
  "weekday (example_world 5) = 5 \<and> run_briefing (example_world 5) = (Skip, [])
   \<and> weekday (example_world 6) = 6 \<and> run_briefing (example_world 6) = (Skip, [])"
proof -
  have sat: "weekday (example_world 5) = 5" and sun: "weekday (example_world 6) = 6"
    by (simp_all add: example_world_def)
  from sat have "run_briefing (example_world 5) = (Skip, [])"
    by (intro weekend_skip) simp
  moreover from sun have "run_briefing (example_world 6) = (Skip, [])"
    by (intro weekend_skip) simp
  ultimately show ?thesis
    using sat sun by simp
qed

text \<open>The same world on a Monday runs every stage, and any weekday run loads the portfolio.\<close>

lemma example_world_loads:
  "load_portfolio (portfolio_csv (example_world day))
     = Some [\<lparr>Symbol = ''AAA.NS'', Quantity = Fin 10, Other = ()\<rparr>]"
proof -
  have "\<not> endswith ''AAA'' ''.NS''"
    by code_simp
  then show ?thesis
    by (simp add: example_world_def load_portfolio_def read_csv_def)
qed

lemma singleton_movers:
  "map fst (top_gainers (calculate_performance [row] cp pc)) = [Symbol row]"
  "map fst (top_losers (calculate_performance [row] cp pc)) = [Symbol row]"
  by (simp_all add: top_gainers_eq top_losers_eq sort_values_def stable_sort_by_def)

lemma monday_runs_pipeline:
  "run_briefing (example_world 0) =
     (Success,
      [Stage LoadPortfolio, Stage FetchMarketData, Request PriceService,
       Stage CalculatePerformance, Stage FetchNews, Request NewsService,
       Request NewsService, Stage GenerateAnalysis, Request GenerativeService,
       Stage SendTelegramReport, Request ChatService])"
proof -
  let ?held = "\<lparr>Symbol = ''AAA.NS'', Quantity = Fin 10, Other = ()\<rparr>"
  obtain cp pc
    where fetched: "fetch_market_data (yf_download (example_world 0)) [?held] = Inr (cp, pc)"
    by (rule fetch_market_data_returns [of "yf_download (example_world 0)" "[?held]"])
      (simp_all add: example_world_def)
  have queries: "remdups [''NIFTY 50'', ''AAA.NS'', ''AAA.NS''] = [''NIFTY 50'', ''AAA.NS'']"
    by simp
  have news: "fetch_news (news_feed (example_world 0)) [''NIFTY 50'', ''AAA.NS'']
        = (Inr [(''NIFTY 50'', [(''headline'', ''link'')]), (''AAA.NS'', [(''headline'', ''link'')])],
           [Request NewsService, Request NewsService])"
    by (simp add: example_world_def Let_def)
  have services: "weekday (example_world 0) = 0"
    "telegram_post (example_world 0) = (\<lambda>report. Inr 200)"
    by (simp_all add: example_world_def)
  show ?thesis
    by (simp add: run_briefing_def pipeline_def Let_def example_world_loads fetched
        singleton_movers queries news services del: fetch_news.simps remdups.simps)
qed

lemma weekday_runs:
  "weekday w < 5 \<Longrightarrow>
     fst (run_briefing w) \<noteq> Skip \<and> hd (snd (run_briefing w)) = Stage LoadPortfolio"
  by (auto simp: run_briefing_def pipeline_def Let_def split: option.splits sum.splits prod.splits)

subsection \<open>The end-to-end scenario of the specification\<close>

text \<open>
  One position of 10 \<open>AAA\<close> and the series 100, 110: the price is 110, the change 10
  percent and the value 1100. The daily P&L is the double next to 100.00000000000011,
  where the specification computes 100 in exact arithmetic.
\<close>

lemma end_to_end_scenario:
  "load_portfolio (portfolio_csv (example_world 0))
     = Some [\<lparr>Symbol = ''AAA.NS'', Quantity = Fin 10, Other = ()\<rparr>]
   \<and> (\<exists>cp pc. fetch_market_data (yf_download (example_world 0))
                  [\<lparr>Symbol = ''AAA.NS'', Quantity = Fin 10, Other = ()\<rparr>] = Inr (cp, pc)
        \<and> cp ''AAA.NS'' = Some (Fin 110) \<and> pc ''AAA.NS'' = Some (Fin 10)
        \<and> total_value (calculate_performance
              [\<lparr>Symbol = ''AAA.NS'', Quantity = Fin 10, Other = ()\<rparr>] cp pc) = Fin 1100
        \<and> total_daily_pnl (calculate_performance
              [\<lparr>Symbol = ''AAA.NS'', Quantity = Fin 10, Other = ()\<rparr>] cp pc)
           = Fin (879609302220801 / 8796093022208))"
proof -
  let ?held = "\<lparr>Symbol = ''AAA.NS'', Quantity = Fin 10, Other = ()\<rparr>"
  have loaded: "load_portfolio (portfolio_csv (example_world 0)) = Some [?held]"
    by (rule example_world_loads)
  have quote: "ticker_quote (\<lambda>ticker. Inr [Fin 100, Fin 110]) t = Inr (Fin 110, Fin 10)" for t
    using change_100_110 by (simp add: ticker_quote_def dropna_def iloc_def)
  obtain cp pc where fetched: "fetch_market_data (yf_download (example_world 0)) [?held] = Inr (cp, pc)"
    and loop: "ticker_loop (\<lambda>ticker. Inr [Fin 100, Fin 110]) (all_tickers [?held])
                 (Map.empty, Map.empty) = (cp, pc)"
    by (rule fetch_market_data_returns [of "yf_download (example_world 0)" "[?held]"])
      (simp_all add: example_world_def)
  have "''AAA.NS'' \<in> set (all_tickers [?held])"
    by (simp add: all_tickers_def)
  from ticker_loop_lookup(1) [OF loop this]
  have quoted: "cp ''AAA.NS'' = Some (Fin 110)" "pc ''AAA.NS'' = Some (Fin 10)"
    by (simp_all add: quote)
  have change: "ChangePct (add_columns cp pc ?held) = Fin 10"
    by (simp add: add_columns_fields series_map_def quoted)
  have current: "CurrentValue (add_columns cp pc ?held) = Fin 1100"
    by (simp add: add_columns_fields series_map_def quoted round_double_ints)
  have pnl: "DailyPnL (add_columns cp pc ?held) = Fin (879609302220801 / 8796093022208)"
    unfolding add_columns_fields(4) change current by (rule pnl_10_110_10)
  have "total_value (calculate_performance [?held] cp pc) = Fin 1100"
    by (simp add: total_value_eq pd_sum_def dropna_def current round_double_ints)
  moreover
  have "total_daily_pnl (calculate_performance [?held] cp pc)
          = Fin (879609302220801 / 8796093022208)"
    by (simp add: total_daily_pnl_eq pd_sum_def dropna_def pnl pnl_10_110_10_double)
  ultimately show ?thesis
    using loaded fetched quoted by blast
qed

end
